theory Spec2Isabelle
  imports Main "HOL-Library.Word"
begin

unbundle bit_operations_syntax

section \<open>Values of the runtime\<close>

text \<open>
  A \<open>Buffer\<close> is a list of bytes. JavaScript numbers are modelled as \<open>int\<close>
  (the module only handles integral values); the big integers of \<open>bigi\<close> that occur
  in a signature are non-negative and modelled as \<open>nat\<close>.
\<close>

type_synonym byte = "8 word"
type_synonym buffer = "byte list"

text \<open>An error that is thrown is modelled by its class and its message.\<close>

datatype error =
    AssertionError string
  | Error string
  | TypeError string
  | RangeError string

text \<open>
  The values a caller can hand to the polymorphic entry points. \<open>JObject r s i\<close> is an
  object whose fields \<open>r\<close>, \<open>s\<close> (big integers) and \<open>i\<close> (a number) may be absent.
\<close>

datatype js_value =
    JNull
  | JUndefined
  | JBool bool
  | JNumber int
  | JString string
  | JBuffer buffer
  | JObject "nat option" "nat option" "int option"

fun truthy :: "js_value \<Rightarrow> bool" where
  "truthy JNull = False"
| "truthy JUndefined = False"
| "truthy (JBool b) = b"
| "truthy (JNumber n) = (n \<noteq> 0)"
| "truthy (JString t) = (t \<noteq> [])"
| "truthy (JBuffer b) = True"
| "truthy (JObject r s i) = True"

text \<open>
  The operator \<open>&\<close> of JavaScript converts both operands to signed 32-bit integers.
\<close>

definition js_bitand :: "int \<Rightarrow> int \<Rightarrow> int" where
  "js_bitand a b = sint ((word_of_int a :: 32 word) AND word_of_int b)"

subsection \<open>Buffer operations\<close>

text \<open>\<open>buf.slice(a, b)\<close> and \<open>buf.slice(a)\<close>: negative offsets count from the end.\<close>

definition slice_index :: "nat \<Rightarrow> int \<Rightarrow> nat" where
  "slice_index n k = (if k < 0 then nat (max 0 (int n + k)) else min n (nat k))"

definition js_slice :: "'a list \<Rightarrow> int \<Rightarrow> int \<Rightarrow> 'a list" where
  "js_slice xs a b = (let lo = slice_index (length xs) a; hi = slice_index (length xs) b
                   in take (hi - lo) (drop lo xs))"

definition js_slice_from :: "'a list \<Rightarrow> int \<Rightarrow> 'a list" where
  "js_slice_from xs a = drop (slice_index (length xs) a) xs"

text \<open>\<open>buf.writeUInt8(value, offset)\<close> checks the value and the offset.\<close>

definition writeUInt8 :: "buffer \<Rightarrow> int \<Rightarrow> nat \<Rightarrow> error + buffer" where
  "writeUInt8 buf v off =
     (if v > 255 \<or> v < 0 then Inl (RangeError ''\"value\" argument is out of bounds'')
      else if off + 1 > length buf then Inl (RangeError ''Index out of range'')
      else Inr (buf[off := word_of_int v]))"

text \<open>\<open>src.copy(target, targetStart)\<close> copies as many bytes as fit into the target.\<close>

definition copy :: "buffer \<Rightarrow> buffer \<Rightarrow> nat \<Rightarrow> buffer" where
  "copy src target targetStart =
     (let n = min (length src) (length target - targetStart)
      in take targetStart target @ take n src @ drop (targetStart + n) target)"

text \<open>\<open>buf.toString(\"hex\")\<close>: two lowercase digits for each byte.\<close>

definition hex_digit :: "nat \<Rightarrow> char" where
  "hex_digit d = ''0123456789abcdef'' ! d"

definition toString_hex :: "buffer \<Rightarrow> string" where
  "toString_hex buf = concat (map (\<lambda>b. [hex_digit (unat b div 16), hex_digit (unat b mod 16)]) buf)"

subsection \<open>Big integers (bigi)\<close>

text \<open>Big-endian digits of a number in a base, most significant first; none for 0.\<close>

function be_digits :: "nat \<Rightarrow> nat \<Rightarrow> nat list" where
  "be_digits base n =
     (if n = 0 \<or> base < 2 then [] else be_digits base (n div base) @ [n mod base])"
  by pat_completeness auto
termination
  by (relation "measure snd") auto

declare be_digits.simps [simp del]

fun be_value :: "nat \<Rightarrow> nat list \<Rightarrow> nat" where
  "be_value base ds = foldl (\<lambda>acc d. acc * base + d) 0 ds"

text \<open>\<open>BigInteger.fromBuffer\<close>: the bytes read as an unsigned big-endian number.\<close>

definition BigInteger_fromBuffer :: "buffer \<Rightarrow> nat" where
  "BigInteger_fromBuffer buf = be_value 256 (map unat buf)"

text \<open>
  \<open>toByteArray\<close> (also \<open>toDERInteger\<close>): the shortest two's-complement big-endian
  encoding, which for a non-negative number has a leading zero byte when the top bit of
  the magnitude is set.
\<close>

definition toByteArray :: "nat \<Rightarrow> buffer" where
  "toByteArray n =
     (let ds = be_digits 256 n
      in if ds = [] then [0]
         else if hd ds \<ge> 128 then 0 # map word_of_nat ds
         else map word_of_nat ds)"

definition toByteArrayUnsigned :: "nat \<Rightarrow> buffer" where
  "toByteArrayUnsigned n =
     (let byteArray = toByteArray n
      in if hd byteArray = 0 then tl byteArray else byteArray)"

text \<open>\<open>x.toBuffer(size)\<close>: zero bytes in front up to \<open>size\<close>; a longer number is not cut.\<close>

definition BigInteger_toBuffer :: "nat \<Rightarrow> nat \<Rightarrow> buffer" where
  "BigInteger_toBuffer n sz =
     (let byteArray = toByteArrayUnsigned n
      in replicate (sz - length byteArray) 0 @ byteArray)"

section \<open>The signature value\<close>

record signature =
  sig_r :: nat
  sig_s :: nat
  sig_i :: int

text \<open>
  \<open>Signature(r, s, i)\<close> asserts that none of its arguments is null or undefined.
\<close>

definition Signature :: "nat option \<Rightarrow> nat option \<Rightarrow> int option \<Rightarrow> error + signature" where
  "Signature r s i =
     (case r of None \<Rightarrow> Inl (AssertionError ''Missing parameter'')
      | Some r' \<Rightarrow>
     (case s of None \<Rightarrow> Inl (AssertionError ''Missing parameter'')
      | Some s' \<Rightarrow>
     (case i of None \<Rightarrow> Inl (AssertionError ''Missing parameter'')
      | Some i' \<Rightarrow> Inr \<lparr>sig_r = r', sig_s = s', sig_i = i'\<rparr>)))"

definition toBuffer :: "signature \<Rightarrow> error + buffer" where
  "toBuffer sg =
     (case writeUInt8 (replicate 65 0) (sig_i sg) 0 of
        Inl e \<Rightarrow> Inl e
      | Inr buf \<Rightarrow>
          Inr (copy (BigInteger_toBuffer (sig_s sg) 32)
                 (copy (BigInteger_toBuffer (sig_r sg) 32) buf 1) 33))"

definition toHex :: "signature \<Rightarrow> error + string" where
  "toHex sg = (case toBuffer sg of Inl e \<Rightarrow> Inl e | Inr buf \<Rightarrow> Inr (toString_hex buf))"

fun fromBuffer :: "js_value \<Rightarrow> error + signature" where
  "fromBuffer (JBuffer buf) =
     (if length buf \<noteq> 65 then Inl (AssertionError ''Invalid signature length'')
      else let i = uint (buf ! 0)
           in if i - 27 \<noteq> js_bitand (i - 27) 7
              then Inl (AssertionError ''Invalid signature parameter'')
              else Signature (Some (BigInteger_fromBuffer (js_slice buf 1 33)))
                             (Some (BigInteger_fromBuffer (js_slice_from buf 33)))
                             (Some i))"
| "fromBuffer v = Inl (AssertionError ''Buffer is required'')"

section \<open>Collaborators\<close>

text \<open>
  The module requires its hash functions, the curve arithmetic, the key types, the
  hexadecimal and UTF-8 decoding of \<open>Buffer.from\<close> and the configured prefix from
  elsewhere. They are parameters of the model: \<open>'k\<close> is what a caller passes as a private
  key, \<open>'pt\<close> a curve point and \<open>'pub\<close> a public key.
\<close>

record ecsignature =
  ec_r :: nat
  ec_s :: nat

record 'pt private_key =
  pk_d :: nat
  pk_Q :: 'pt

record ('k, 'pt, 'pub) adapters =
  hash_sha256 :: "buffer \<Rightarrow> buffer"
  hash_ripemd160 :: "buffer \<Rightarrow> buffer"
  ecdsa_sign :: "buffer \<Rightarrow> nat \<Rightarrow> nat \<Rightarrow> ecsignature"
  ecdsa_recoverPubKey :: "nat \<Rightarrow> nat \<Rightarrow> nat \<Rightarrow> int \<Rightarrow> error + 'pt"
  PrivateKey :: "'k \<Rightarrow> error + 'pt private_key"
  PublicKey_fromPoint :: "'pt \<Rightarrow> 'pub"
  Buffer_from_hex :: "string \<Rightarrow> buffer"
  Buffer_from_utf8 :: "string \<Rightarrow> buffer"
  address_prefix :: string

text \<open>
  Modelled from the spec: \<open>ECSignature.toDER\<close> (ecsignature.js is not among the sources).
  The DER form is a SEQUENCE of the two INTEGERs \<open>r\<close> and \<open>s\<close>, each a tag, a length
  byte and the two's-complement big-endian bytes; the signing loop reads the two length
  bytes at offsets 3 and \<open>5 + lenR\<close>.
\<close>

definition toDER :: "ecsignature \<Rightarrow> buffer" where
  "toDER sg =
     (let rBa = toByteArray (ec_r sg);
          sBa = toByteArray (ec_s sg);
          sequence = [2, word_of_nat (length rBa)] @ rBa @ [2, word_of_nat (length sBa)] @ sBa
      in [48, word_of_nat (length sequence)] @ sequence)"

text \<open>
  Modelled from the spec: \<open>ecdsa.calcPubKeyRecoveryParam\<close> (ecdsa.js is not among the
  sources) derives the 0-3 recovery parameter by testing which of the candidate
  recovered points equals the signer's public key.
\<close>

fun calcPubKeyRecoveryParam_from ::
  "('k, 'pt, 'pub) adapters \<Rightarrow> nat \<Rightarrow> ecsignature \<Rightarrow> 'pt \<Rightarrow> int list \<Rightarrow> error + int" where
  "calcPubKeyRecoveryParam_from env e sg Q [] = Inl (Error ''Unable to find valid recovery factor'')"
| "calcPubKeyRecoveryParam_from env e sg Q (i # rest) =
     (case ecdsa_recoverPubKey env e (ec_r sg) (ec_s sg) i of
        Inl err \<Rightarrow> Inl err
      | Inr Qprime \<Rightarrow> if Qprime = Q then Inr i else calcPubKeyRecoveryParam_from env e sg Q rest)"

definition calcPubKeyRecoveryParam ::
  "('k, 'pt, 'pub) adapters \<Rightarrow> nat \<Rightarrow> ecsignature \<Rightarrow> 'pt \<Rightarrow> error + int" where
  "calcPubKeyRecoveryParam env e sg Q = calcPubKeyRecoveryParam_from env e sg Q [0, 1, 2, 3]"

subsection \<open>Base58 (bs58)\<close>

text \<open>
  The codec of the \<open>bs58\<close> package: every leading zero byte becomes the character
  \<open>1\<close>, the number in the remaining bytes is written in base 58; decoding reverses
  this and rejects a character outside the alphabet.
\<close>

definition base58_alphabet :: string where
  "base58_alphabet = ''123456789ABCDEFGHJKLMNPQRSTUVWXYZabcdefghijkmnopqrstuvwxyz''"

fun index_of :: "'a \<Rightarrow> 'a list \<Rightarrow> nat" where
  "index_of x [] = 0"
| "index_of x (y # ys) = (if x = y then 0 else Suc (index_of x ys))"

definition base58_encode :: "buffer \<Rightarrow> string" where
  "base58_encode source =
     (let zeroes = length (takeWhile (\<lambda>b. b = 0) source)
      in replicate zeroes (CHR ''1'') @
         map (\<lambda>d. base58_alphabet ! d) (be_digits 58 (be_value 256 (map unat source))))"

definition base58_decode :: "string \<Rightarrow> error + buffer" where
  "base58_decode str =
     (if list_ex (\<lambda>c. c \<notin> set base58_alphabet) str
      then Inl (Error ''Non-base58 character'')
      else let zeroes = length (takeWhile (\<lambda>c. c = CHR ''1'') str)
           in Inr (replicate zeroes 0 @
                   map word_of_nat
                     (be_digits 256 (be_value 58 (map (\<lambda>c. index_of c base58_alphabet) str)))))"

section \<open>Operations of a signature\<close>

text \<open>
  The digest argument of \<open>signHash\<close> and \<open>recoverHash\<close>: a string is decoded as
  hexadecimal, and the result must be a buffer of 32 bytes. Reading \<open>length\<close> of null or
  undefined is a TypeError of the runtime.
\<close>

definition digest_arg ::
  "('k, 'pt, 'pub) adapters \<Rightarrow> string \<Rightarrow> js_value \<Rightarrow> error + buffer" where
  "digest_arg env msg dataSha256 =
     (case dataSha256 of
        JString h \<Rightarrow>
          (let buf = Buffer_from_hex env h in if length buf \<noteq> 32 then Inl (Error msg) else Inr buf)
      | JBuffer buf \<Rightarrow> if length buf \<noteq> 32 then Inl (Error msg) else Inr buf
      | JNull \<Rightarrow> Inl (TypeError ''Cannot read property length'')
      | JUndefined \<Rightarrow> Inl (TypeError ''Cannot read property length'')
      | _ \<Rightarrow> Inl (Error msg))"

definition recoverHash ::
  "('k, 'pt, 'pub) adapters \<Rightarrow> signature \<Rightarrow> js_value \<Rightarrow> error + 'pub" where
  "recoverHash env sg dataSha256 =
     (case digest_arg env ''dataSha256: 32 byte String or buffer requred'' dataSha256 of
        Inl err \<Rightarrow> Inl err
      | Inr buf \<Rightarrow>
          (let e = BigInteger_fromBuffer buf;
               i2 = sig_i sg - 27;
               i2 = js_bitand i2 3
           in case ecdsa_recoverPubKey env e (sig_r sg) (sig_s sg) i2 of
                Inl err \<Rightarrow> Inl err
              | Inr Q \<Rightarrow> Inr (PublicKey_fromPoint env Q)))"

text \<open>
  \<open>toString\<close> reads and fills the cache of the instance: the cache is passed in and
  returned. An absent \<open>prefix\<close> argument takes the configured prefix.
\<close>

definition toString ::
  "('k, 'pt, 'pub) adapters \<Rightarrow> signature \<Rightarrow> string option \<Rightarrow> string option
     \<Rightarrow> (error + string) \<times> string option" where
  "toString env sg signatureCache prefix_arg =
     (let prefix = (case prefix_arg of None \<Rightarrow> address_prefix env | Some p \<Rightarrow> p)
      in case signatureCache of
           Some (c # cs) \<Rightarrow> (Inr (prefix @ c # cs), signatureCache)
         | _ \<Rightarrow>
          (case toBuffer sg of
             Inl err \<Rightarrow> (Inl err, signatureCache)
           | Inr pub_buf \<Rightarrow>
               (let checksum = hash_ripemd160 env pub_buf;
                    signatureString = pub_buf @ js_slice checksum 0 4;
                    encoded = base58_encode signatureString
                in (Inr (prefix @ encoded), Some encoded))))"

section \<open>Signing\<close>

definition buffer_at :: "buffer \<Rightarrow> nat \<Rightarrow> nat option" where
  "buffer_at buf k = (if k < length buf then Some (unat (buf ! k)) else None)"

text \<open>
  The loop of \<open>signHash\<close>, from the nonce it is about to try. It has no bound: a run
  that never finds a canonical pair is \<open>None\<close>. The warning it logs every ten attempts
  has no effect on the result and is left out.
\<close>

partial_function (option) signHash_loop ::
  "('k, 'pt, 'pub) adapters \<Rightarrow> buffer \<Rightarrow> 'pt private_key \<Rightarrow> nat \<Rightarrow> nat
     \<Rightarrow> (error + signature) option" where
  "signHash_loop env dataSha256 privateKey e nonce =
     (let ecsignature = ecdsa_sign env dataSha256 (pk_d privateKey) nonce;
          der = toDER ecsignature;
          lenR = buffer_at der 3;
          lenS = (case lenR of None \<Rightarrow> None | Some l \<Rightarrow> buffer_at der (5 + l))
      in if lenR = Some 32 \<and> lenS = Some 32
         then Some (case calcPubKeyRecoveryParam env e ecsignature (pk_Q privateKey) of
                      Inl err \<Rightarrow> Inl err
                    | Inr i \<Rightarrow>
                        Signature (Some (ec_r ecsignature)) (Some (ec_s ecsignature))
                          (Some (i + 4 + 27)))
         else signHash_loop env dataSha256 privateKey e (nonce + 1))"

declare signHash_loop.simps [code]

definition signHash ::
  "('k, 'pt, 'pub) adapters \<Rightarrow> js_value \<Rightarrow> 'k \<Rightarrow> (error + signature) option" where
  "signHash env dataSha256 privateKey =
     (case digest_arg env ''dataSha256: 32 byte buffer requred'' dataSha256 of
        Inl err \<Rightarrow> Some (Inl err)
      | Inr buf \<Rightarrow>
          (case PrivateKey env privateKey of
             Inl err \<Rightarrow> Some (Inl err)
           | Inr pk \<Rightarrow> signHash_loop env buf pk (BigInteger_fromBuffer buf) 0))"

definition sign ::
  "('k, 'pt, 'pub) adapters \<Rightarrow> js_value \<Rightarrow> 'k \<Rightarrow> (error + signature) option" where
  "sign env data privateKey =
     (case data of
        JString t \<Rightarrow> signHash env (JBuffer (hash_sha256 env (Buffer_from_utf8 env t))) privateKey
      | JBuffer buf \<Rightarrow> signHash env (JBuffer (hash_sha256 env buf)) privateKey
      | _ \<Rightarrow> Some (Inl (AssertionError ''data is a required String or Buffer'')))"

section \<open>Parsing\<close>

definition fromHex :: "('k, 'pt, 'pub) adapters \<Rightarrow> string \<Rightarrow> error + signature" where
  "fromHex env hex = fromBuffer (JBuffer (Buffer_from_hex env hex))"

definition fromStringOrThrow ::
  "('k, 'pt, 'pub) adapters \<Rightarrow> string \<Rightarrow> string option \<Rightarrow> error + signature" where
  "fromStringOrThrow env signature prefix_arg =
     (let prefix = (case prefix_arg of None \<Rightarrow> address_prefix env | Some p \<Rightarrow> p);
          actualPrefix = js_slice signature 0 (int (length prefix))
      in if actualPrefix \<noteq> prefix
         then Inl (AssertionError
                (''Expecting key to begin with '' @ prefix @ '', instead got '' @ prefix))
         else
           (case base58_decode (js_slice_from signature (int (length prefix))) of
              Inl err \<Rightarrow> Inl err
            | Inr decoded \<Rightarrow>
                (let checksum = toString_hex (js_slice_from decoded (- 4));
                     payload = js_slice decoded 0 (- 4);
                     new_checksum = toString_hex (js_slice (hash_ripemd160 env payload) 0 4)
                 in if checksum \<noteq> new_checksum
                    then Inl (AssertionError
                           (''Checksum did not match, '' @ checksum @ '' != '' @ new_checksum))
                    else fromBuffer (JBuffer payload))))"

definition fromString ::
  "('k, 'pt, 'pub) adapters \<Rightarrow> string \<Rightarrow> string option \<Rightarrow> signature option" where
  "fromString env signature prefix_arg =
     (case fromStringOrThrow env signature prefix_arg of
        Inl err \<Rightarrow> None
      | Inr sg \<Rightarrow> Some sg)"

text \<open>
  \<open>Signature.from\<close>: the nested conditional yields a signature, or a falsy value for
  which the TypeError is thrown. An object is returned as it is when its three fields are
  truthy: a big integer is an object and so truthy, a number is truthy unless it is 0.
\<close>

definition from_sig :: "('k, 'pt, 'pub) adapters \<Rightarrow> js_value \<Rightarrow> error + signature" where
  "from_sig env o_arg =
     (let signature =
            (if truthy o_arg then
               (case o_arg of
                  JObject (Some r) (Some s) (Some i) \<Rightarrow>
                    if i \<noteq> 0 then Inr (Some \<lparr>sig_r = r, sig_s = s, sig_i = i\<rparr>) else Inr None
                | JString t \<Rightarrow>
                    if length t = 130 then map_sum id Some (fromHex env t)
                    else Inr (fromString env t None)
                | JBuffer buf \<Rightarrow> map_sum id Some (fromBuffer o_arg)
                | _ \<Rightarrow> Inr None)
             else Inr None)
      in case signature of
           Inl err \<Rightarrow> Inl err
         | Inr None \<Rightarrow> Inl (TypeError ''signature should be a hex string or buffer'')
         | Inr (Some sg) \<Rightarrow> Inr sg)"

section \<open>Notions used to state the properties\<close>

text \<open>The order of the group of secp256k1, the curve the module fixes.\<close>

definition curve_n :: nat where
  "curve_n = 115792089237316195423570985008687907852837564279074904382605163141518161494337"

text \<open>
  The signing primitive of the curve adapter returns \<open>r\<close> and \<open>s\<close> reduced modulo the
  group order (the data model calls them curve-order-bounded).
\<close>

definition sign_in_range :: "('k, 'pt, 'pub) adapters \<Rightarrow> bool" where
  "sign_in_range env \<longleftrightarrow>
     (\<forall>h d k. ec_r (ecdsa_sign env h d k) < curve_n \<and> ec_s (ecdsa_sign env h d k) < curve_n)"

text \<open>The two hash functions return digests of 32 and of 20 bytes.\<close>

definition hash_lengths :: "('k, 'pt, 'pub) adapters \<Rightarrow> bool" where
  "hash_lengths env \<longleftrightarrow>
     (\<forall>m. length (hash_sha256 env m) = 32) \<and> (\<forall>m. length (hash_ripemd160 env m) = 20)"

text \<open>The exit test of the signing loop and the value the loop returns on exit.\<close>

definition der_lengths :: "ecsignature \<Rightarrow> nat option \<times> nat option" where
  "der_lengths sg =
     (let der = toDER sg;
          lenR = buffer_at der 3;
          lenS = (case lenR of None \<Rightarrow> None | Some l \<Rightarrow> buffer_at der (5 + l))
      in (lenR, lenS))"

definition loop_result ::
  "('k, 'pt, 'pub) adapters \<Rightarrow> nat \<Rightarrow> 'pt private_key \<Rightarrow> ecsignature \<Rightarrow> error + signature" where
  "loop_result env e privateKey ecsignature =
     (case calcPubKeyRecoveryParam env e ecsignature (pk_Q privateKey) of
        Inl err \<Rightarrow> Inl err
      | Inr i \<Rightarrow>
          Signature (Some (ec_r ecsignature)) (Some (ec_s ecsignature)) (Some (i + 4 + 27)))"

text \<open>
  The body of the text form: the base58 form of the bytes followed by the first four bytes
  of their RIPEMD-160.
\<close>

definition text_body :: "('k, 'pt, 'pub) adapters \<Rightarrow> buffer \<Rightarrow> string" where
  "text_body env buf = base58_encode (buf @ take 4 (hash_ripemd160 env buf))"

text \<open>
  A run of \<open>toString\<close> calls on one instance, the cache threaded from call to call.
\<close>

fun toString_calls ::
  "('k, 'pt, 'pub) adapters \<Rightarrow> signature \<Rightarrow> string option \<Rightarrow> string option list
     \<Rightarrow> (error + string) list \<times> string option" where
  "toString_calls env sg cache [] = ([], cache)"
| "toString_calls env sg cache (p # ps) =
     (let (res, cache') = toString env sg cache p;
          (rest, cache'') = toString_calls env sg cache' ps
      in (res # rest, cache''))"

definition prefix_or_default :: "('k, 'pt, 'pub) adapters \<Rightarrow> string option \<Rightarrow> string" where
  "prefix_or_default env prefix_arg =
     (case prefix_arg of None \<Rightarrow> address_prefix env | Some p \<Rightarrow> p)"

text \<open>
  A small instance of the collaborators on which the model can be run: keys and points
  are numbers, the first signing attempt is too short and the second canonical, and the
  point recovered for parameter \<open>i\<close> is \<open>i\<close> itself.
\<close>

definition test_adapters :: "(nat, nat, nat) adapters" where
  "test_adapters =
     \<lparr>hash_sha256 = (\<lambda>m. take 32 (m @ replicate 32 0)),
      hash_ripemd160 = (\<lambda>m. take 20 (m @ replicate 20 0)),
      ecdsa_sign = (\<lambda>h d nonce. if nonce = 0 then \<lparr>ec_r = 1, ec_s = 1\<rparr>
                                  else \<lparr>ec_r = 2 ^ 254, ec_s = 2 ^ 253 + 1\<rparr>),
      ecdsa_recoverPubKey = (\<lambda>e r s i. if 0 \<le> i \<and> i \<le> 3 then Inr (nat i)
                                        else Inl (AssertionError ''Recovery param is more than two bits'')),
      PrivateKey = (\<lambda>k. Inr \<lparr>pk_d = k, pk_Q = 2\<rparr>),
      PublicKey_fromPoint = (\<lambda>Q. Q),
      Buffer_from_hex = (\<lambda>t. []),
      Buffer_from_utf8 = map (\<lambda>c. word_of_nat (of_char c)),
      address_prefix = ''EOS''\<rparr>"

definition test_signature :: signature where
  "test_signature = \<lparr>sig_r = 2 ^ 254, sig_s = 2 ^ 253 + 1, sig_i = 33\<rparr>"

section \<open>Digits and bit masks\<close>

lemma be_digits_0 [simp]: "be_digits b 0 = []"
  by (simp add: be_digits.simps)

lemma be_digits_rec: "n \<noteq> 0 \<Longrightarrow> 2 \<le> b \<Longrightarrow> be_digits b n = be_digits b (n div b) @ [n mod b]"
  by (subst be_digits.simps) simp

lemma be_digits_eq_Nil: "be_digits b n = [] \<longleftrightarrow> n = 0 \<or> b < 2"
  by (subst be_digits.simps) simp

lemma be_value_be_digits: "2 \<le> b \<Longrightarrow> be_value b (be_digits b n) = n"
proof (induction b n rule: be_digits.induct)
  case (1 base n)
  show ?case
  proof (cases "n = 0")
    case True
    then show ?thesis by simp
  next
    case False
    with 1 have "be_value base (be_digits base (n div base)) = n div base" by simp
    with False 1(2) show ?thesis
      by (simp add: be_digits_rec)
  qed
qed

lemma be_digits_less: "d \<in> set (be_digits b n) \<Longrightarrow> d < b"
proof (induction b n rule: be_digits.induct)
  case (1 base n)
  show ?case
  proof (cases "n = 0 \<or> base < 2")
    case True
    with 1(2) show ?thesis by (simp add: be_digits_eq_Nil[THEN iffD2])
  next
    case False
    with 1 show ?thesis by (auto simp: be_digits_rec)
  qed
qed

lemma be_digits_hd: "be_digits b n \<noteq> [] \<Longrightarrow> hd (be_digits b n) \<noteq> 0"
proof (induction b n rule: be_digits.induct)
  case (1 base n)
  from 1(2) have n: "n \<noteq> 0" "2 \<le> base" by (simp_all add: be_digits_eq_Nil)
  show ?case
  proof (cases "n div base = 0")
    case True
    with n have "be_digits base n = [n mod base]"
      by (simp add: be_digits_rec)
    moreover from True n have "n mod base = n" by (simp add: div_eq_0_iff)
    ultimately show ?thesis using n by simp
  next
    case False
    with n have ne: "be_digits base (n div base) \<noteq> []" by (simp add: be_digits_eq_Nil)
    with 1(1) n have "hd (be_digits base (n div base)) \<noteq> 0" by simp
    with ne n show ?thesis by (simp add: be_digits_rec)
  qed
qed

lemma be_digits_length: "n < b ^ k \<Longrightarrow> length (be_digits b n) \<le> k"
proof (induction b n arbitrary: k rule: be_digits.induct)
  case (1 base n)
  show ?case
  proof (cases "n = 0 \<or> base < 2")
    case True
    then show ?thesis by (simp add: be_digits_eq_Nil[THEN iffD2])
  next
    case False
    then obtain k' where k': "k = Suc k'" using 1(2) by (cases k) auto
    from 1(2) k' False have "n div base < base ^ k'"
      by (simp add: less_mult_imp_div_less mult.commute)
    with 1(1) False have "length (be_digits base (n div base)) \<le> k'" by simp
    with False k' show ?thesis by (simp add: be_digits_rec)
  qed
qed

lemma js_bitand_mask:
  assumes "n < 31"
  shows "js_bitand a (mask n) = a mod 2 ^ n"
proof -
  have "(word_of_int a :: 32 word) AND word_of_int (mask n) = take_bit n (word_of_int a)"
    by (simp add: take_bit_eq_mask of_int_mask_eq)
  also have "\<dots> = word_of_int (take_bit n a)"
    by (simp add: take_bit_of_int)
  finally have "js_bitand a (mask n) = sint (word_of_int (take_bit n a) :: 32 word)"
    by (simp add: js_bitand_def)
  also have "\<dots> = signed_take_bit 31 (take_bit n a)"
    by (simp add: sint_sbintrunc')
  also have "\<dots> = take_bit n a"
    using assms by (simp add: signed_take_bit_take_bit)
  finally show ?thesis by (simp add: take_bit_eq_mod)
qed

lemma js_bitand_7: "js_bitand a 7 = a mod 8"
  using js_bitand_mask [of 3 a] by (simp add: mask_eq_exp_minus_1)

lemma js_bitand_3: "js_bitand a 3 = a mod 4"
  using js_bitand_mask [of 2 a] by (simp add: mask_eq_exp_minus_1)

section \<open>Big integers and the byte form\<close>

lemma map_unat_word_of_nat:
  "\<forall>d \<in> set ds. d < 256 \<Longrightarrow> map unat (map word_of_nat ds :: byte list) = ds"
  by (induction ds) (simp_all add: unat_of_nat)

lemma toByteArrayUnsigned_digits:
  "toByteArrayUnsigned n = map word_of_nat (be_digits 256 n)"
proof (cases "be_digits 256 n")
  case Nil
  then show ?thesis by (simp add: toByteArrayUnsigned_def toByteArray_def)
next
  case (Cons d ds)
  then have "d \<noteq> 0" "d < 256"
    using be_digits_hd [of 256 n] be_digits_less [of d 256 n] by simp_all
  then have "(word_of_nat d :: byte) \<noteq> 0"
    by (simp add: word_of_nat_eq_0_iff dvd_def) (metis nat_dvd_not_less dvd_def not_gr_zero)
  with Cons show ?thesis by (simp add: toByteArrayUnsigned_def toByteArray_def Let_def)
qed

lemma be_value_replicate_0: "be_value b (replicate k 0 @ ds) = be_value b ds"
  by (induction k) simp_all

lemma BigInteger_toBuffer_length:
  assumes "n < 2 ^ (8 * k)"
  shows "length (BigInteger_toBuffer n k) = k"
proof -
  have "n < 256 ^ k" using assms by (simp add: power_mult)
  then have "length (be_digits 256 n) \<le> k" by (rule be_digits_length)
  then show ?thesis by (simp add: BigInteger_toBuffer_def toByteArrayUnsigned_digits)
qed

lemma BigInteger_fromBuffer_toBuffer:
  "BigInteger_fromBuffer (BigInteger_toBuffer n k) = n"
proof -
  have "map unat (BigInteger_toBuffer n k) = replicate (k - length (be_digits 256 n)) 0 @ be_digits 256 n"
    by (simp add: BigInteger_toBuffer_def toByteArrayUnsigned_digits map_replicate_const
        map_unat_word_of_nat be_digits_less del: map_map)
  then show ?thesis
    unfolding BigInteger_fromBuffer_def
    using be_value_be_digits [of 256 n] by (simp only: be_value_replicate_0)
qed

lemma toBuffer_layout:
  assumes "sig_r sg < 2 ^ 256" "sig_s sg < 2 ^ 256" "0 \<le> sig_i sg" "sig_i sg \<le> 255"
  shows "toBuffer sg = Inr (word_of_int (sig_i sg) # BigInteger_toBuffer (sig_r sg) 32
                              @ BigInteger_toBuffer (sig_s sg) 32)"
proof -
  have lr: "length (BigInteger_toBuffer (sig_r sg) 32) = 32"
    and ls: "length (BigInteger_toBuffer (sig_s sg) 32) = 32"
    using assms by (simp_all add: BigInteger_toBuffer_length)
  have "replicate 65 (0::byte) = 0 # replicate 64 0"
    by (simp flip: replicate_Suc)
  then have w: "writeUInt8 (replicate 65 0) (sig_i sg) 0 = Inr (word_of_int (sig_i sg) # replicate 64 0)"
    using assms(3,4) by (simp add: writeUInt8_def)
  show ?thesis
    by (simp add: toBuffer_def w copy_def lr ls)
qed

lemma js_bitand_7_check: "0 \<le> i \<Longrightarrow> i \<le> 255 \<Longrightarrow> (i - 27 = js_bitand (i - 27) 7) \<longleftrightarrow> (27 \<le> i \<and> i \<le> 34)"
  unfolding js_bitand_7 by presburger

lemma fromBuffer_layout:
  assumes "length rb = 32" "length sb = 32"
  shows "fromBuffer (JBuffer (b # rb @ sb)) =
           (if 27 \<le> uint b \<and> uint b \<le> 34
            then Inr \<lparr>sig_r = BigInteger_fromBuffer rb, sig_s = BigInteger_fromBuffer sb, sig_i = uint b\<rparr>
            else Inl (AssertionError ''Invalid signature parameter''))"
proof -
  have "uint b \<le> 255" using uint_lt2p [of b] by simp
  then have c: "(uint b - 27 = js_bitand (uint b - 27) 7) \<longleftrightarrow> (27 \<le> uint b \<and> uint b \<le> 34)"
    by (simp add: js_bitand_7_check)
  have s1: "js_slice (b # rb @ sb) 1 33 = rb"
    using assms by (simp add: js_slice_def slice_index_def)
  have s2: "js_slice_from (b # rb @ sb) 33 = sb"
    using assms by (simp add: js_slice_from_def slice_index_def)
  show ?thesis
    using assms c by (simp add: s1 s2 Signature_def Let_def )
qed

lemma fromBuffer_toBuffer:
  assumes "sig_r sg < 2 ^ 256" "sig_s sg < 2 ^ 256" "27 \<le> sig_i sg" "sig_i sg \<le> 34"
    and "toBuffer sg = Inr buf"
  shows "fromBuffer (JBuffer buf) = Inr sg"
proof -
  have buf: "buf = word_of_int (sig_i sg) # BigInteger_toBuffer (sig_r sg) 32 @ BigInteger_toBuffer (sig_s sg) 32"
    using assms toBuffer_layout [of sg] by simp
  have u: "uint (word_of_int (sig_i sg) :: byte) = sig_i sg"
    using assms by (simp add: uint_word_of_int)
  have lr: "length (BigInteger_toBuffer (sig_r sg) 32) = 32"
    and ls: "length (BigInteger_toBuffer (sig_s sg) 32) = 32"
    using assms by (simp_all add: BigInteger_toBuffer_length)
  have "fromBuffer (JBuffer buf) =
          (if 27 \<le> uint (word_of_int (sig_i sg) :: byte) \<and> uint (word_of_int (sig_i sg) :: byte) \<le> 34
           then Inr \<lparr>sig_r = BigInteger_fromBuffer (BigInteger_toBuffer (sig_r sg) 32),
                     sig_s = BigInteger_fromBuffer (BigInteger_toBuffer (sig_s sg) 32),
                     sig_i = uint (word_of_int (sig_i sg) :: byte)\<rparr>
           else Inl (AssertionError ''Invalid signature parameter''))"
    unfolding buf using lr ls by (rule fromBuffer_layout)
  also have "\<dots> = Inr \<lparr>sig_r = sig_r sg, sig_s = sig_s sg, sig_i = sig_i sg\<rparr>"
    using assms(3,4) by (simp only: u BigInteger_fromBuffer_toBuffer) simp
  finally show ?thesis by simp
qed

section \<open>Positional notation and the base58 alphabet\<close>

lemma be_value_eq_0: "0 < b \<Longrightarrow> be_value b ds = 0 \<longleftrightarrow> (\<forall>d \<in> set ds. d = 0)"
  by (induction ds rule: rev_induct) auto

lemma be_digits_snoc:
  assumes "2 \<le> b" "d < b" "v * b + d \<noteq> 0"
  shows "be_digits b (v * b + d) = be_digits b v @ [d]"
  using assms by (simp add: be_digits_rec)

lemma be_digits_be_value:
  assumes "2 \<le> b" "\<forall>d \<in> set ds. d < b"
  shows "be_digits b (be_value b ds) = dropWhile (\<lambda>d. d = 0) ds"
  using assms(2)
proof (induction ds rule: rev_induct)
  case Nil
  then show ?case by simp
next
  case (snoc d ds)
  show ?case
  proof (cases "be_value b ds * b + d = 0")
    case True
    then have v0: "be_value b (ds @ [d]) = 0" by simp
    with assms(1) have "\<forall>x \<in> set (ds @ [d]). x = 0"
      by (subst (asm) be_value_eq_0) auto
    then have "dropWhile (\<lambda>d. d = 0) (ds @ [d]) = []" by simp
    moreover have "be_digits b (be_value b (ds @ [d])) = []"
      by (simp only: v0 be_digits_0)
    ultimately show ?thesis by (simp only:)
  next
    case False
    from snoc have IH: "be_digits b (be_value b ds) = dropWhile (\<lambda>d. d = 0) ds" and d: "d < b"
      by simp_all
    have "be_digits b (be_value b (ds @ [d])) = be_digits b (be_value b ds) @ [d]"
      using be_digits_snoc [OF assms(1) d False] by simp
    also have "\<dots> = dropWhile (\<lambda>d. d = 0) (ds @ [d])"
    proof (cases "\<forall>x \<in> set ds. x = 0")
      case True
      with assms(1) have "be_value b ds = 0" by (subst be_value_eq_0) auto
      with False have "d \<noteq> 0" by simp
      with True IH \<open>be_value b ds = 0\<close> show ?thesis by (simp add: dropWhile_append)
    next
      case False
      then show ?thesis using IH by (auto simp: dropWhile_append)
    qed
    finally show ?thesis .
  qed
qed

lemma takeWhile_dropWhile_zero:
  "replicate (length (takeWhile (\<lambda>x. x = z) xs)) z @ dropWhile (\<lambda>x. x = z) xs = xs"
  by (induction xs) auto

lemma dropWhile_map_unat:
  "dropWhile (\<lambda>d. d = 0) (map unat (bs :: byte list)) = map unat (dropWhile (\<lambda>b. b = 0) bs)"
  by (induction bs) (auto simp: unat_eq_0)

lemma map_word_of_nat_unat: "map word_of_nat (map unat (bs :: byte list)) = bs"
  by (induction bs) simp_all

lemma index_of_nth: "distinct xs \<Longrightarrow> k < length xs \<Longrightarrow> index_of (xs ! k) xs = k"
proof (induction xs arbitrary: k)
  case Nil
  then show ?case by simp
next
  case (Cons x xs)
  then show ?case by (cases k) auto
qed

lemma base58_alphabet_length: "length base58_alphabet = 58"
  by (simp add: base58_alphabet_def)

lemma base58_alphabet_distinct: "distinct base58_alphabet"
  by (simp add: base58_alphabet_def)

lemma base58_alphabet_0: "base58_alphabet ! 0 = CHR ''1''"
  by (simp add: base58_alphabet_def)

section \<open>The base58 codec is lossless\<close>

lemma takeWhile_replicate_append:
  assumes "P x" "ys = [] \<or> \<not> P (hd ys)"
  shows "takeWhile P (replicate z x @ ys) = replicate z x"
  using assms by (induction z) (auto simp: takeWhile_eq_Nil_iff neq_Nil_conv)

lemma base58_digit_index:
  "d < 58 \<Longrightarrow> index_of (base58_alphabet ! d) base58_alphabet = d"
  by (simp add: index_of_nth base58_alphabet_distinct base58_alphabet_length)

lemma base58_digit_member: "d < 58 \<Longrightarrow> base58_alphabet ! d \<in> set base58_alphabet"
  by (simp add: base58_alphabet_length)

lemma base58_digit_one: "d < 58 \<Longrightarrow> base58_alphabet ! d = CHR ''1'' \<longleftrightarrow> d = 0"
  using base58_digit_index [of d] base58_digit_index [of 0] base58_alphabet_0 by auto

lemma base58_encode_valid: "\<not> list_ex (\<lambda>c. c \<notin> set base58_alphabet) (base58_encode source)"
proof -
  have "CHR ''1'' \<in> set base58_alphabet"
    using base58_digit_member [of 0] base58_alphabet_0 by simp
  then show ?thesis
    by (auto simp: base58_encode_def list_ex_iff
        dest!: be_digits_less intro: base58_digit_member)
qed

lemma unat_byte_less: "unat (b :: byte) < 256"
  using unsigned_less [of b] by simp

lemma base58_decode_encode: "base58_decode (base58_encode source) = Inr source"
proof -
  define n where "n = be_value 256 (map unat source)"
  define z where "z = length (takeWhile (\<lambda>b. b = 0) source)"
  define ds where "ds = be_digits 58 n"
  have enc: "base58_encode source = replicate z (CHR ''1'') @ map (\<lambda>d. base58_alphabet ! d) ds"
    by (simp add: base58_encode_def n_def z_def ds_def)
  have ds58: "\<forall>d \<in> set ds. d < 58"
    unfolding ds_def by (auto dest: be_digits_less)
  have hd_ds: "ds = [] \<or> hd ds \<noteq> 0"
    unfolding ds_def using be_digits_hd [of 58 n] by blast
  have "map (\<lambda>d. base58_alphabet ! d) ds = [] \<or> hd (map (\<lambda>d. base58_alphabet ! d) ds) \<noteq> CHR ''1''"
  proof (cases ds)
    case Nil
    then show ?thesis by simp
  next
    case (Cons d ds')
    with ds58 hd_ds have "d < 58" "d \<noteq> 0" by simp_all
    then show ?thesis using Cons by (simp add: base58_digit_one)
  qed
  then have tw: "takeWhile (\<lambda>c. c = CHR ''1'') (base58_encode source) = replicate z (CHR ''1'')"
    unfolding enc by (intro takeWhile_replicate_append) simp_all
  have "map (\<lambda>c. index_of c base58_alphabet) (map (\<lambda>d. base58_alphabet ! d) ds) = ds"
    using ds58 by (induction ds) (simp_all add: base58_digit_index)
  moreover have "index_of (CHR ''1'') base58_alphabet = 0"
    using base58_digit_index [of 0] base58_alphabet_0 by simp
  ultimately have idx: "map (\<lambda>c. index_of c base58_alphabet) (base58_encode source) = replicate z 0 @ ds"
    unfolding enc by (simp add: map_replicate_const del: map_map)
  have "be_value 58 (map (\<lambda>c. index_of c base58_alphabet) (base58_encode source)) = n"
    unfolding idx ds_def
    using be_value_be_digits [of 58 n] by (simp only: be_value_replicate_0)
  then have "be_digits 256 (be_value 58 (map (\<lambda>c. index_of c base58_alphabet) (base58_encode source)))
             = map unat (dropWhile (\<lambda>b. b = 0) source)"
    unfolding n_def
    using be_digits_be_value [of 256 "map unat source"]
    by (simp add: dropWhile_map_unat unat_byte_less del: be_value.simps)
  then have body: "map word_of_nat (be_digits 256 (be_value 58 (map (\<lambda>c. index_of c base58_alphabet) (base58_encode source))))
             = dropWhile (\<lambda>b. b = 0) source"
    by (simp only: map_word_of_nat_unat)
  have "base58_decode (base58_encode source) =
          Inr (replicate z 0 @ dropWhile (\<lambda>b. b = 0) source)"
    unfolding base58_decode_def
    by (simp only: base58_encode_valid if_False Let_def tw body length_replicate)
  then show ?thesis
    by (simp only: z_def takeWhile_dropWhile_zero)
qed

section \<open>The signing loop\<close>

lemma loop_test:
  "(buffer_at (toDER sg) 3 = Some 32 \<and>
    (case buffer_at (toDER sg) 3 of None \<Rightarrow> None | Some l \<Rightarrow> buffer_at (toDER sg) (5 + l)) = Some 32)
   = (der_lengths sg = (Some 32, Some 32))"
  by (simp add: der_lengths_def Let_def)

lemma signHash_loop_unfold:
  "signHash_loop env h pk e nonce =
     (if der_lengths (ecdsa_sign env h (pk_d pk) nonce) = (Some 32, Some 32)
      then Some (loop_result env e pk (ecdsa_sign env h (pk_d pk) nonce))
      else signHash_loop env h pk e (nonce + 1))"
  by (subst signHash_loop.simps) (simp only: Let_def loop_test loop_result_def)

lemma signHash_loop_sound:
  assumes "signHash_loop env h pk e nonce = Some res"
  shows "\<exists>k. nonce \<le> k
           \<and> der_lengths (ecdsa_sign env h (pk_d pk) k) = (Some 32, Some 32)
           \<and> (\<forall>j. nonce \<le> j \<and> j < k \<longrightarrow> der_lengths (ecdsa_sign env h (pk_d pk) j) \<noteq> (Some 32, Some 32))
           \<and> res = loop_result env e pk (ecdsa_sign env h (pk_d pk) k)"
proof -
  let ?P = "\<lambda>env h pk e nonce res k. nonce \<le> k
           \<and> der_lengths (ecdsa_sign env h (pk_d pk) k) = (Some 32, Some 32)
           \<and> (\<forall>j. nonce \<le> j \<and> j < k \<longrightarrow> der_lengths (ecdsa_sign env h (pk_d pk) j) \<noteq> (Some 32, Some 32))
           \<and> res = loop_result env e pk (ecdsa_sign env h (pk_d pk) k)"
  show ?thesis
  proof (rule signHash_loop.raw_induct [where P = "\<lambda>env h pk e nonce res. \<exists>k. ?P env h pk e nonce res k", OF _ assms])
    fix loop :: "('a, 'b, 'c) adapters \<Rightarrow> buffer \<Rightarrow> 'b private_key \<Rightarrow> nat \<Rightarrow> nat \<Rightarrow> (error + signature) option"
    fix env h pk e nonce res
    assume IH: "\<And>env h pk e nonce res. loop env h pk e nonce = Some res \<Longrightarrow> \<exists>k. ?P env h pk e nonce res k"
    assume "(let ecsignature = ecdsa_sign env h (pk_d pk) nonce;
              der = toDER ecsignature; lenR = buffer_at der 3;
              lenS = case lenR of None \<Rightarrow> None | Some l \<Rightarrow> buffer_at der (5 + l)
          in if lenR = Some 32 \<and> lenS = Some 32
             then Some (case calcPubKeyRecoveryParam env e ecsignature (pk_Q pk) of
                    Inl err \<Rightarrow> Inl err
                  | Inr i \<Rightarrow> Signature (Some (ec_r ecsignature)) (Some (ec_s ecsignature)) (Some (i + 4 + 27)))
             else loop env h pk e (nonce + 1)) = Some res"
    then have body:
      "(if der_lengths (ecdsa_sign env h (pk_d pk) nonce) = (Some 32, Some 32)
        then Some (loop_result env e pk (ecdsa_sign env h (pk_d pk) nonce))
        else loop env h pk e (nonce + 1)) = Some res"
      by (simp only: Let_def loop_test loop_result_def)
    show "\<exists>k. ?P env h pk e nonce res k"
    proof (cases "der_lengths (ecdsa_sign env h (pk_d pk) nonce) = (Some 32, Some 32)")
      case True
      from body have "Some (loop_result env e pk (ecdsa_sign env h (pk_d pk) nonce)) = Some res"
        by (simp only: True simp_thms if_True)
      then have res: "res = loop_result env e pk (ecdsa_sign env h (pk_d pk) nonce)"
        by (simp only: option.inject)
      have "?P env h pk e nonce res nonce"
      proof (intro conjI allI impI)
        fix j assume "nonce \<le> j \<and> j < nonce"
        then have False by arith
        then show "der_lengths (ecdsa_sign env h (pk_d pk) j) \<noteq> (Some 32, Some 32)" ..
      qed (rule order_refl, rule True, rule res)
      then show ?thesis by (rule exI)
    next
      case False
      note ne = this
      with body have "loop env h pk e (nonce + 1) = Some res"
        by (simp only: if_False)
      from IH [OF this] obtain k where k: "?P env h pk e (nonce + 1) res k" ..
      from k have k1: "nonce + 1 \<le> k"
        by (rule conjunct1)
      from k have k2: "der_lengths (ecdsa_sign env h (pk_d pk) k) = (Some 32, Some 32)"
        by (rule conjunct1 [OF conjunct2])
      from k have k3':
        "\<forall>j. nonce + 1 \<le> j \<and> j < k \<longrightarrow> der_lengths (ecdsa_sign env h (pk_d pk) j) \<noteq> (Some 32, Some 32)"
        by (rule conjunct1 [OF conjunct2 [OF conjunct2]])
      from k have k4: "res = loop_result env e pk (ecdsa_sign env h (pk_d pk) k)"
        by (rule conjunct2 [OF conjunct2 [OF conjunct2]])
      have k3: "der_lengths (ecdsa_sign env h (pk_d pk) j) \<noteq> (Some 32, Some 32)"
        if "nonce + 1 \<le> j" "j < k" for j
        using that by (intro k3' [rule_format] conjI)
      have "?P env h pk e nonce res k"
      proof (intro conjI allI impI)
        show "nonce \<le> k" using k1 by arith
        show "der_lengths (ecdsa_sign env h (pk_d pk) k) = (Some 32, Some 32)" by (rule k2)
        show "res = loop_result env e pk (ecdsa_sign env h (pk_d pk) k)" by (rule k4)
      next
        fix j assume j: "nonce \<le> j \<and> j < k"
        show "der_lengths (ecdsa_sign env h (pk_d pk) j) \<noteq> (Some 32, Some 32)"
        proof (cases "j = nonce")
          case True
          show ?thesis unfolding True by (rule ne)
        next
          case False
          with j have "nonce + 1 \<le> j" "j < k" by arith+
          then show ?thesis by (rule k3)
        qed
      qed
      then show ?thesis by (rule exI)
    qed
  qed
qed

lemma signHash_loop_complete:
  assumes "der_lengths (ecdsa_sign env h (pk_d pk) k) = (Some 32, Some 32)"
    and "nonce \<le> k"
    and "\<forall>j. nonce \<le> j \<and> j < k \<longrightarrow> der_lengths (ecdsa_sign env h (pk_d pk) j) \<noteq> (Some 32, Some 32)"
  shows "signHash_loop env h pk e nonce = Some (loop_result env e pk (ecdsa_sign env h (pk_d pk) k))"
  using assms(2,3)
proof (induction "k - nonce" arbitrary: nonce)
  case 0
  then have "nonce = k" by simp
  with assms(1) show ?case by (subst signHash_loop_unfold) simp
next
  case (Suc m)
  then have "der_lengths (ecdsa_sign env h (pk_d pk) nonce) \<noteq> (Some 32, Some 32)" by simp
  moreover have "signHash_loop env h pk e (nonce + 1) = Some (loop_result env e pk (ecdsa_sign env h (pk_d pk) k))"
    using Suc by (intro Suc(1)) auto
  ultimately show ?case by (subst signHash_loop_unfold) simp
qed

section \<open>Recovery parameter and DER lengths\<close>

lemma calcPubKeyRecoveryParam_from_Inr:
  "calcPubKeyRecoveryParam_from env e sg Q cands = Inr p \<Longrightarrow>
     p \<in> set cands \<and> ecdsa_recoverPubKey env e (ec_r sg) (ec_s sg) p = Inr Q"
  by (induction cands) (auto split: sum.splits if_splits)

lemma calcPubKeyRecoveryParam_Inr:
  assumes "calcPubKeyRecoveryParam env e sg Q = Inr p"
  shows "0 \<le> p \<and> p \<le> 3 \<and> ecdsa_recoverPubKey env e (ec_r sg) (ec_s sg) p = Inr Q"
  using calcPubKeyRecoveryParam_from_Inr [OF assms [unfolded calcPubKeyRecoveryParam_def]]
  by auto

lemma loop_result_Inr:
  assumes "loop_result env e pk sg = Inr S"
  shows "\<exists>p. calcPubKeyRecoveryParam env e sg (pk_Q pk) = Inr p \<and> 0 \<le> p \<and> p \<le> 3
             \<and> S = \<lparr>sig_r = ec_r sg, sig_s = ec_s sg, sig_i = p + 4 + 27\<rparr>"
proof (cases "calcPubKeyRecoveryParam env e sg (pk_Q pk)")
  case (Inl err)
  with assms show ?thesis by (simp add: loop_result_def)
next
  case (Inr p)
  with assms have "S = \<lparr>sig_r = ec_r sg, sig_s = ec_s sg, sig_i = p + 4 + 27\<rparr>"
    by (simp add: loop_result_def Signature_def)
  with Inr calcPubKeyRecoveryParam_Inr [OF Inr] show ?thesis by blast
qed

lemma toByteArray_length_le:
  assumes "n < 2 ^ 256"
  shows "length (toByteArray n) \<le> 33"
proof -
  have "n < 256 ^ 32" using assms by simp
  then have "length (be_digits 256 n) \<le> 32" by (rule be_digits_length)
  then show ?thesis by (simp add: toByteArray_def Let_def)
qed

lemma toDER_nth_3:
  "buffer_at (toDER sg) 3 = Some (length (toByteArray (ec_r sg)) mod 256)"
  by (simp add: toDER_def buffer_at_def Let_def unat_of_nat)

lemma toDER_nth_lenS:
  "buffer_at (toDER sg) (5 + length (toByteArray (ec_r sg)))
     = Some (length (toByteArray (ec_s sg)) mod 256)"
  by (simp add: toDER_def buffer_at_def Let_def unat_of_nat nth_append)

lemma der_lengths_in_range:
  assumes "ec_r sg < 2 ^ 256" "ec_s sg < 2 ^ 256"
  shows "der_lengths sg = (Some (length (toByteArray (ec_r sg))), Some (length (toByteArray (ec_s sg))))"
proof -
  have r: "length (toByteArray (ec_r sg)) mod 256 = length (toByteArray (ec_r sg))"
    using toByteArray_length_le [OF assms(1)] by simp
  have s: "length (toByteArray (ec_s sg)) mod 256 = length (toByteArray (ec_s sg))"
    using toByteArray_length_le [OF assms(2)] by simp
  show ?thesis
    unfolding der_lengths_def Let_def
    by (simp only: toDER_nth_3 r option.case toDER_nth_lenS s)
qed

lemma curve_n_less: "curve_n < 2 ^ 256"
  by (simp add: curve_n_def)

section \<open>Length of a DER integer\<close>

lemma be_digits_length_gt:
  "2 \<le> b \<Longrightarrow> b ^ k \<le> n \<Longrightarrow> k < length (be_digits b n)"
proof (induction k arbitrary: n)
  case 0
  then show ?case by (simp add: be_digits_eq_Nil)
next
  case (Suc k)
  from Suc.prems have n: "n \<noteq> 0" by (cases "n = 0") simp_all
  from Suc.prems have "b ^ k * b \<le> n" by (simp add: mult.commute)
  with Suc.prems(1) have "b ^ k \<le> n div b"
    by (simp add: less_eq_div_iff_mult_less_eq)
  with Suc have "k < length (be_digits b (n div b))" by simp
  with n Suc.prems(1) show ?case by (simp add: be_digits_rec)
qed

lemma be_digits_length_eq:
  assumes "2 \<le> b" "b ^ k \<le> n" "n < b ^ Suc k"
  shows "length (be_digits b n) = Suc k"
  using be_digits_length_gt [OF assms(1,2)] be_digits_length [OF assms(3)] by simp

lemma be_digits_hd_div:
  "2 \<le> b \<Longrightarrow> n \<noteq> 0 \<Longrightarrow> hd (be_digits b n) = n div b ^ (length (be_digits b n) - 1)"
proof (induction b n rule: be_digits.induct)
  case (1 base n)
  show ?case
  proof (cases "n div base = 0")
    case True
    with 1(2,3) have "be_digits base n = [n mod base]" by (simp add: be_digits_rec)
    moreover from True 1(2) have "n mod base = n" by (simp add: div_eq_0_iff)
    ultimately show ?thesis by simp
  next
    case False
    with 1(2) have ne: "be_digits base (n div base) \<noteq> []" by (simp add: be_digits_eq_Nil)
    from 1 False have IH: "hd (be_digits base (n div base))
        = (n div base) div base ^ (length (be_digits base (n div base)) - 1)" by simp
    from ne have len: "length (be_digits base (n div base)) = Suc (length (be_digits base (n div base)) - 1)"
      by (cases "be_digits base (n div base)") simp_all
    have "hd (be_digits base n) = hd (be_digits base (n div base))"
      using 1(2,3) ne by (simp add: be_digits_rec)
    also have "\<dots> = n div (base * base ^ (length (be_digits base (n div base)) - 1))"
      by (simp only: IH div_mult2_eq)
    also have "\<dots> = n div base ^ length (be_digits base (n div base))"
      by (subst (2) len) simp
    finally show ?thesis using 1(2,3) by (simp add: be_digits_rec)
  qed
qed

lemma toByteArray_length:
  assumes "n \<noteq> 0"
  shows "length (toByteArray n) =
           (if 128 \<le> n div 256 ^ (length (be_digits 256 n) - 1)
            then Suc (length (be_digits 256 n)) else length (be_digits 256 n))"
  using assms be_digits_hd_div [of 256 n]
  by (simp add: toByteArray_def Let_def be_digits_eq_Nil)

lemma digits_31:
  assumes "(2::nat) ^ 240 \<le> n" "n < 2 ^ 248"
  shows "length (be_digits 256 n) = 31"
proof -
  have "(256::nat) ^ 30 \<le> n" "n < 256 ^ Suc 30" using assms by simp_all
  then show ?thesis using be_digits_length_eq [of 256 30 n] by simp
qed

lemma digits_32:
  assumes "(2::nat) ^ 248 \<le> n" "n < 2 ^ 256"
  shows "length (be_digits 256 n) = 32"
proof -
  have "(256::nat) ^ 31 \<le> n" "n < 256 ^ Suc 31" using assms by simp_all
  then show ?thesis using be_digits_length_eq [of 256 31 n] by simp
qed

lemma toByteArray_length_32_iff:
  "length (toByteArray n) = 32 \<longleftrightarrow> 2 ^ 247 \<le> n \<and> n < 2 ^ 255"
proof (cases "n = 0")
  case True
  then show ?thesis by (simp add: toByteArray_def)
next
  case False
  note len = toByteArray_length [OF False]
  have h31: "(128 \<le> n div 256 ^ 30) = ((2::nat) ^ 247 \<le> n)"
    by (simp add: less_eq_div_iff_mult_less_eq)
  have h32: "(128 \<le> n div 256 ^ 31) = ((2::nat) ^ 255 \<le> n)"
    by (simp add: less_eq_div_iff_mult_less_eq)
  show ?thesis
  proof
    assume L: "length (toByteArray n) = 32"
    show "2 ^ 247 \<le> n \<and> n < 2 ^ 255"
    proof (cases "128 \<le> n div 256 ^ (length (be_digits 256 n) - 1)")
      case True
      with L len have d: "length (be_digits 256 n) = 31" by simp
      with True h31 have lo: "2 ^ 247 \<le> n" by simp
      have "\<not> (256::nat) ^ 31 \<le> n"
        using be_digits_length_gt [of 256 31 n] d by auto
      then have "n < 2 ^ 248" by simp
      with lo show ?thesis by simp
    next
      case False
      with L len have d: "length (be_digits 256 n) = 32" by simp
      with False h32 have hi: "n < 2 ^ 255" by simp
      have "\<not> n < (256::nat) ^ 31"
        using be_digits_length [of n 256 31] d by auto
      then have "2 ^ 248 \<le> n" by simp
      with hi show ?thesis by simp
    qed
  next
    assume b: "2 ^ 247 \<le> n \<and> n < 2 ^ 255"
    show "length (toByteArray n) = 32"
    proof (cases "n < 2 ^ 248")
      case True
      with b have "length (be_digits 256 n) = 31" by (intro digits_31) simp_all
      with b h31 len show ?thesis by simp
    next
      case False
      with b have "length (be_digits 256 n) = 32" by (intro digits_32) simp_all
      with b h32 len show ?thesis by simp
    qed
  qed
qed

section \<open>Signatures produced by signing\<close>

lemma signHash_Inr:
  assumes "signHash env data key = Some (Inr S)"
  shows "\<exists>buf pk k.
           digest_arg env ''dataSha256: 32 byte buffer requred'' data = Inr buf
         \<and> PrivateKey env key = Inr pk
         \<and> der_lengths (ecdsa_sign env buf (pk_d pk) k) = (Some 32, Some 32)
         \<and> (\<forall>j. 0 \<le> j \<and> j < k \<longrightarrow> der_lengths (ecdsa_sign env buf (pk_d pk) j) \<noteq> (Some 32, Some 32))
         \<and> loop_result env (BigInteger_fromBuffer buf) pk (ecdsa_sign env buf (pk_d pk) k) = Inr S"
proof -
  from assms obtain buf where buf: "digest_arg env ''dataSha256: 32 byte buffer requred'' data = Inr buf"
    by (cases "digest_arg env ''dataSha256: 32 byte buffer requred'' data") (simp_all add: signHash_def)
  with assms obtain pk where pk: "PrivateKey env key = Inr pk"
    by (cases "PrivateKey env key") (simp_all add: signHash_def)
  from assms buf pk have "signHash_loop env buf pk (BigInteger_fromBuffer buf) 0 = Some (Inr S)"
    by (simp add: signHash_def)
  from signHash_loop_sound [OF this] buf pk show ?thesis
    by (simp only: eq_commute [of "Inr S"]) blast
qed

lemma sign_signHash:
  assumes "sign env data key = Some (Inr S)"
  shows "\<exists>d. signHash env (JBuffer d) key = Some (Inr S)"
  using assms by (cases data) (auto simp: sign_def)

lemma signHash_produced:
  assumes "sign_in_range env" "signHash env data key = Some (Inr S)"
  shows "sig_r S < 2 ^ 256 \<and> sig_s S < 2 ^ 256 \<and> 31 \<le> sig_i S \<and> sig_i S \<le> 34
       \<and> length (toByteArray (sig_r S)) = 32 \<and> length (toByteArray (sig_s S)) = 32"
proof -
  from signHash_Inr [OF assms(2)] obtain buf pk k where
    ex: "der_lengths (ecdsa_sign env buf (pk_d pk) k) = (Some 32, Some 32)"
    and res: "loop_result env (BigInteger_fromBuffer buf) pk (ecdsa_sign env buf (pk_d pk) k) = Inr S"
    by blast
  define sg where "sg = ecdsa_sign env buf (pk_d pk) k"
  from assms(1) have rng: "ec_r sg < 2 ^ 256" "ec_s sg < 2 ^ 256"
    using curve_n_less unfolding sign_in_range_def sg_def
    by (meson less_trans)+
  from ex der_lengths_in_range [OF rng] have
    "length (toByteArray (ec_r sg)) = 32" "length (toByteArray (ec_s sg)) = 32"
    unfolding sg_def by simp_all
  moreover from loop_result_Inr [OF res] obtain p where
    "0 \<le> p" "p \<le> 3" "S = \<lparr>sig_r = ec_r sg, sig_s = ec_s sg, sig_i = p + 4 + 27\<rparr>"
    unfolding sg_def by blast
  ultimately show ?thesis using rng by simp
qed

lemma test_sign_in_range: "sign_in_range test_adapters"
  by (simp add: sign_in_range_def test_adapters_def curve_n_def)

lemma test_hash_lengths: "hash_lengths test_adapters"
  by (auto simp: hash_lengths_def test_adapters_def)

lemma test_der_lengths_0: "der_lengths \<lparr>ec_r = 1, ec_s = 1\<rparr> = (Some 1, Some 1)"
  by code_simp

lemma test_der_lengths_1: "der_lengths \<lparr>ec_r = 2 ^ 254, ec_s = 2 ^ 253 + 1\<rparr> = (Some 32, Some 32)"
proof -
  have "length (toByteArray (2 ^ 254)) = 32" "length (toByteArray (2 ^ 253 + 1)) = 32"
    by (simp_all add: toByteArray_length_32_iff)
  then show ?thesis
    using der_lengths_in_range [of "\<lparr>ec_r = 2 ^ 254, ec_s = 2 ^ 253 + 1\<rparr>"] by simp
qed

lemma test_sign_0: "ecdsa_sign test_adapters h d 0 = \<lparr>ec_r = 1, ec_s = 1\<rparr>"
  by (simp add: test_adapters_def)

lemma test_sign_1: "ecdsa_sign test_adapters h d 1 = \<lparr>ec_r = 2 ^ 254, ec_s = 2 ^ 253 + 1\<rparr>"
  by (simp add: test_adapters_def)

lemma test_exit_0: "der_lengths (ecdsa_sign test_adapters h d 0) \<noteq> (Some 32, Some 32)"
  by (simp only: test_sign_0 test_der_lengths_0) simp

lemma test_exit_1: "der_lengths (ecdsa_sign test_adapters h d 1) = (Some 32, Some 32)"
  by (simp only: test_sign_1 test_der_lengths_1)

lemma test_loop_result:
  "loop_result test_adapters e \<lparr>pk_d = d, pk_Q = 2\<rparr> (ecdsa_sign test_adapters h d' 1)
     = Inr test_signature"
  unfolding test_sign_1
  by (simp add: loop_result_def calcPubKeyRecoveryParam_def test_adapters_def Signature_def
      test_signature_def)

lemma test_signHash_loop:
  "signHash_loop test_adapters h \<lparr>pk_d = d, pk_Q = 2\<rparr> e 0 = Some (Inr test_signature)"
proof -
  have "\<forall>j. 0 \<le> j \<and> j < 1 \<longrightarrow>
          der_lengths (ecdsa_sign test_adapters h (pk_d \<lparr>pk_d = d, pk_Q = 2::nat\<rparr>) j) \<noteq> (Some 32, Some 32)"
  proof (intro allI impI)
    fix j :: nat assume "0 \<le> j \<and> j < 1"
    then have "j = 0" by arith
    then show "der_lengths (ecdsa_sign test_adapters h (pk_d \<lparr>pk_d = d, pk_Q = 2::nat\<rparr>) j) \<noteq> (Some 32, Some 32)"
      by (simp only: test_exit_0 not_False_eq_True)
  qed
  with test_exit_1 have "signHash_loop test_adapters h \<lparr>pk_d = d, pk_Q = 2\<rparr> e 0
        = Some (loop_result test_adapters e \<lparr>pk_d = d, pk_Q = 2\<rparr>
                  (ecdsa_sign test_adapters h (pk_d \<lparr>pk_d = d, pk_Q = 2::nat\<rparr>) 1))"
    by (intro signHash_loop_complete) simp_all
  then show ?thesis by (simp only: test_loop_result)
qed

lemma test_signHash:
  "signHash test_adapters (JBuffer (replicate 32 0)) 7 = Some (Inr test_signature)"
proof -
  have "PrivateKey test_adapters 7 = Inr \<lparr>pk_d = 7, pk_Q = 2\<rparr>"
    by (simp add: test_adapters_def)
  then show ?thesis
    by (simp add: signHash_def digest_arg_def test_signHash_loop)
qed

lemma test_sign:
  "sign test_adapters (JString ''hello'') 7 = Some (Inr test_signature)"
proof -
  have "PrivateKey test_adapters 7 = Inr \<lparr>pk_d = 7, pk_Q = 2\<rparr>"
    by (simp add: test_adapters_def)
  moreover have "length (hash_sha256 test_adapters m) = 32" for m
    using test_hash_lengths by (simp add: hash_lengths_def)
  ultimately show ?thesis
    by (simp add: sign_def signHash_def digest_arg_def test_signHash_loop)
qed

section \<open>Round trip through the byte form\<close>

text \<open>
  C1. Every signature \<open>S\<close> returned by \<open>Signature.signHash\<close> or \<open>Signature.sign\<close> has a
  byte form, and \<open>Signature.fromBuffer\<close> of that byte form returns a signature with the
  same \<open>r\<close>, \<open>s\<close> and recovery id. The signing primitive is taken to return values below
  the group order.
\<close>

theorem fromBuffer_toBuffer_signed:
  assumes "sign_in_range env"
    and "signHash env data key = Some (Inr S) \<or> sign env data key = Some (Inr S)"
  shows "\<exists>buf. toBuffer S = Inr buf \<and> fromBuffer (JBuffer buf) = Inr S"
proof -
  from assms(2) obtain d where "signHash env d key = Some (Inr S)"
    using sign_signHash [of env data key S] by blast
  from signHash_produced [OF assms(1) this]
  have w: "sig_r S < 2 ^ 256" "sig_s S < 2 ^ 256" "31 \<le> sig_i S" "sig_i S \<le> 34"
    by blast+
  then have "toBuffer S = Inr (word_of_int (sig_i S) # BigInteger_toBuffer (sig_r S) 32
                              @ BigInteger_toBuffer (sig_s S) 32)"
    by (intro toBuffer_layout) simp_all
  moreover from this w have "fromBuffer (JBuffer (word_of_int (sig_i S) # BigInteger_toBuffer (sig_r S) 32
                              @ BigInteger_toBuffer (sig_s S) 32)) = Inr S"
    by (intro fromBuffer_toBuffer) simp_all
  ultimately show ?thesis by blast
qed

theorem fromBuffer_toBuffer_signed_witness:
  "sign_in_range test_adapters
   \<and> signHash test_adapters (JBuffer (replicate 32 0)) 7 = Some (Inr test_signature)
   \<and> (\<exists>buf. toBuffer test_signature = Inr buf \<and> fromBuffer (JBuffer buf) = Inr test_signature)"
proof -
  note h1 = test_sign_in_range
  note h2 = test_signHash
  from fromBuffer_toBuffer_signed [OF h1 disjI1 [OF h2]] h1 h2 show ?thesis
    by (intro conjI)
qed

section \<open>Layout of the byte form\<close>

text \<open>
  C3, as stated, fails: \<open>toBuffer\<close> writes the recovery id with \<open>writeUInt8\<close>, which
  raises a range error for a value outside 0..255, whatever \<open>r\<close> and \<open>s\<close> are.
\<close>

theorem toBuffer_layout_counterexample:
  "sig_r \<lparr>sig_r = 1, sig_s = 1, sig_i = 300\<rparr> < 2 ^ 256
   \<and> sig_s \<lparr>sig_r = 1, sig_s = 1, sig_i = 300\<rparr> < 2 ^ 256
   \<and> toBuffer \<lparr>sig_r = 1, sig_s = 1, sig_i = 300\<rparr>
       = Inl (RangeError ''\"value\" argument is out of bounds'')"
  by (simp add: toBuffer_def writeUInt8_def)

text \<open>
  C3, amended. For every signature whose \<open>r\<close> and \<open>s\<close> fit in 32 bytes and whose
  recovery id is in 0..255, \<open>toBuffer\<close> returns exactly 65 bytes: byte 0 is the recovery
  id, bytes 1-32 are the big-endian digits of \<open>r\<close> behind zero bytes up to 32, and bytes
  33-64 the same for \<open>s\<close>.
\<close>

theorem toBuffer_layout_bytes:
  assumes "sig_r S < 2 ^ 256" "sig_s S < 2 ^ 256" "0 \<le> sig_i S" "sig_i S \<le> 255"
  shows "\<exists>buf. toBuffer S = Inr buf \<and> length buf = 65
           \<and> uint (buf ! 0) = sig_i S
           \<and> take 32 (drop 1 buf)
                = replicate (32 - length (be_digits 256 (sig_r S))) 0
                  @ map word_of_nat (be_digits 256 (sig_r S))
           \<and> BigInteger_fromBuffer (take 32 (drop 1 buf)) = sig_r S
           \<and> drop 33 buf
                = replicate (32 - length (be_digits 256 (sig_s S))) 0
                  @ map word_of_nat (be_digits 256 (sig_s S))
           \<and> BigInteger_fromBuffer (drop 33 buf) = sig_s S"
proof -
  let ?rb = "BigInteger_toBuffer (sig_r S) 32" and ?sb = "BigInteger_toBuffer (sig_s S) 32"
  have lr: "length ?rb = 32" and ls: "length ?sb = 32"
    using assms by (simp_all add: BigInteger_toBuffer_length)
  have buf: "toBuffer S = Inr (word_of_int (sig_i S) # ?rb @ ?sb)"
    using assms by (rule toBuffer_layout)
  have i: "uint (word_of_int (sig_i S) :: byte) = sig_i S"
    using assms(3,4) by (simp add: uint_word_of_int)
  have rb: "?rb = replicate (32 - length (be_digits 256 (sig_r S))) 0
                  @ map word_of_nat (be_digits 256 (sig_r S))"
    and sb: "?sb = replicate (32 - length (be_digits 256 (sig_s S))) 0
                  @ map word_of_nat (be_digits 256 (sig_s S))"
    by (simp_all add: BigInteger_toBuffer_def toByteArrayUnsigned_digits)
  have "length (word_of_int (sig_i S) # ?rb @ ?sb) = 65"
    "uint ((word_of_int (sig_i S) # ?rb @ ?sb) ! 0) = sig_i S"
    "take 32 (drop 1 (word_of_int (sig_i S) # ?rb @ ?sb)) = ?rb"
    "drop 33 (word_of_int (sig_i S) # ?rb @ ?sb) = ?sb"
    using lr ls i by simp_all
  with buf rb sb BigInteger_fromBuffer_toBuffer [of "sig_r S" 32]
    BigInteger_fromBuffer_toBuffer [of "sig_s S" 32]
  show ?thesis by (intro exI [of _ "word_of_int (sig_i S) # ?rb @ ?sb"]) (simp only: simp_thms)
qed

theorem toBuffer_layout_bytes_witness:
  "sig_r test_signature < 2 ^ 256 \<and> sig_s test_signature < 2 ^ 256
   \<and> 0 \<le> sig_i test_signature \<and> sig_i test_signature \<le> 255
   \<and> (\<exists>buf. toBuffer test_signature = Inr buf \<and> length buf = 65
              \<and> uint (buf ! 0) = sig_i test_signature)"
proof -
  have h: "sig_r test_signature < 2 ^ 256" "sig_s test_signature < 2 ^ 256"
    "0 \<le> sig_i test_signature" "sig_i test_signature \<le> 255"
    by (simp_all add: test_signature_def)
  from toBuffer_layout_bytes [OF h] obtain buf where
    "toBuffer test_signature = Inr buf" "length buf = 65" "uint (buf ! 0) = sig_i test_signature"
    by blast
  with h show ?thesis by blast
qed

section \<open>What signing returns\<close>



section \<open>Parsing the byte form\<close>

text \<open>
  C5. \<open>Signature.fromBuffer\<close> fails on every value that is not a buffer and on every
  buffer whose length is not 65. On a buffer of 65 bytes the assertion
  \<open>(i - 27) == ((i - 27) & 7)\<close> on the first byte \<open>i\<close> holds exactly when \<open>i\<close> is in
  27..34; outside that range \<open>fromBuffer\<close> fails, inside it \<open>fromBuffer\<close> returns the
  signature with recovery id \<open>i\<close>, \<open>r\<close> the unsigned big-endian number in bytes 1..32 and
  \<open>s\<close> the one in bytes 33..64.
\<close>

theorem fromBuffer_checks:
  "((\<forall>b. v \<noteq> JBuffer b) \<longrightarrow> fromBuffer v = Inl (AssertionError ''Buffer is required''))
   \<and> (length b \<noteq> 65 \<longrightarrow> fromBuffer (JBuffer b) = Inl (AssertionError ''Invalid signature length''))
   \<and> (length buf = 65 \<longrightarrow>
        ((uint (buf ! 0) - 27 = js_bitand (uint (buf ! 0) - 27) 7)
           = (27 \<le> uint (buf ! 0) \<and> uint (buf ! 0) \<le> 34))
        \<and> (if 27 \<le> uint (buf ! 0) \<and> uint (buf ! 0) \<le> 34
           then fromBuffer (JBuffer buf)
                  = Inr \<lparr>sig_r = BigInteger_fromBuffer (take 32 (drop 1 buf)),
                          sig_s = BigInteger_fromBuffer (drop 33 buf),
                          sig_i = uint (buf ! 0)\<rparr>
           else fromBuffer (JBuffer buf) = Inl (AssertionError ''Invalid signature parameter'')))"
proof (intro conjI impI)
  assume "\<forall>b. v \<noteq> JBuffer b"
  then show "fromBuffer v = Inl (AssertionError ''Buffer is required'')"
    by (cases v) simp_all
next
  assume "length b \<noteq> 65"
  then show "fromBuffer (JBuffer b) = Inl (AssertionError ''Invalid signature length'')"
    by simp
next
  assume len: "length buf = 65"
  have "uint (buf ! 0) \<le> 255" using uint_lt2p [of "buf ! 0"] by simp
  then show c: "(uint (buf ! 0) - 27 = js_bitand (uint (buf ! 0) - 27) 7)
           = (27 \<le> uint (buf ! 0) \<and> uint (buf ! 0) \<le> 34)"
    by (simp add: js_bitand_7_check)
  from len obtain x rb sb where buf: "buf = x # rb @ sb" and l: "length rb = 32" "length sb = 32"
  proof -
    from len have "buf = hd buf # take 32 (tl buf) @ drop 32 (tl buf)" "length (take 32 (tl buf)) = 32"
      "length (drop 32 (tl buf)) = 32"
      by (cases buf; simp)+
    then show ?thesis using that by blast
  qed
  have "take 32 (drop 1 buf) = rb" "drop 33 buf = sb" "buf ! 0 = x"
    using buf l by simp_all
  then show "if 27 \<le> uint (buf ! 0) \<and> uint (buf ! 0) \<le> 34
           then fromBuffer (JBuffer buf)
                  = Inr \<lparr>sig_r = BigInteger_fromBuffer (take 32 (drop 1 buf)),
                          sig_s = BigInteger_fromBuffer (drop 33 buf),
                          sig_i = uint (buf ! 0)\<rparr>
           else fromBuffer (JBuffer buf) = Inl (AssertionError ''Invalid signature parameter'')"
    using fromBuffer_layout [OF l, of x] by (simp only: buf [symmetric] split: if_split) simp
qed

theorem fromBuffer_checks_witness:
  "fromBuffer JNull = Inl (AssertionError ''Buffer is required'')
   \<and> fromBuffer (JBuffer (replicate 64 0)) = Inl (AssertionError ''Invalid signature length'')
   \<and> fromBuffer (JBuffer (26 # replicate 64 0)) = Inl (AssertionError ''Invalid signature parameter'')
   \<and> fromBuffer (JBuffer (31 # replicate 31 0 @ [5] @ replicate 31 0 @ [9]))
       = Inr \<lparr>sig_r = 5, sig_s = 9, sig_i = 31\<rparr>"
proof -
  have r: "BigInteger_fromBuffer (take 32 (drop 1 (31 # replicate 31 0 @ [5] @ replicate 31 0 @ [9]))) = 5"
    by (simp add: BigInteger_fromBuffer_def map_replicate_const be_value_replicate_0 del: be_value.simps)
      simp
  have s: "BigInteger_fromBuffer (drop 33 (31 # replicate 31 0 @ [5] @ replicate 31 0 @ [9])) = 9"
    by (simp add: BigInteger_fromBuffer_def map_replicate_const be_value_replicate_0 del: be_value.simps)
      simp
  have a: "fromBuffer JNull = Inl (AssertionError ''Buffer is required'')"
    using fromBuffer_checks [of JNull] by (simp del: fromBuffer.simps)
  have b: "fromBuffer (JBuffer (replicate 64 0)) = Inl (AssertionError ''Invalid signature length'')"
    using fromBuffer_checks [of _ "replicate 64 0"] by (simp del: fromBuffer.simps)
  have c: "fromBuffer (JBuffer (26 # replicate 64 0)) = Inl (AssertionError ''Invalid signature parameter'')"
    using fromBuffer_checks [of _ _ "26 # replicate 64 0"] by (simp del: fromBuffer.simps)
  have d: "fromBuffer (JBuffer (31 # replicate 31 0 @ [5] @ replicate 31 0 @ [9]))
       = Inr \<lparr>sig_r = 5, sig_s = 9, sig_i = 31\<rparr>"
    using fromBuffer_checks [of _ _ "31 # replicate 31 0 @ [5] @ replicate 31 0 @ [9]"] r s
    by (simp del: fromBuffer.simps)
  from a b c d show ?thesis by (intro conjI)
qed

section \<open>Recovery\<close>

text \<open>
  C6. For a digest of 32 bytes, \<open>recoverHash\<close> hands the curve adapter's
  \<open>recoverPubKey\<close> the digest as a number, \<open>r\<close>, \<open>s\<close> and exactly \<open>(i - 27) & 3\<close> for
  the stored recovery id \<open>i\<close>, and wraps the point it gets in \<open>PublicKey.fromPoint\<close>.
  The parameter is \<open>(i - 27) mod 4\<close>, a value in 0..3; for an id stored as
  \<open>p + 4 + 27\<close> with \<open>p\<close> in 0..3 it is \<open>p\<close>, the flag bit being dropped.
\<close>

theorem recoverHash_parameter:
  "(length digest = 32 \<longrightarrow>
      recoverHash env S (JBuffer digest)
        = (case ecdsa_recoverPubKey env (BigInteger_fromBuffer digest) (sig_r S) (sig_s S)
                  (js_bitand (sig_i S - 27) 3) of
             Inl err \<Rightarrow> Inl err
           | Inr Q \<Rightarrow> Inr (PublicKey_fromPoint env Q)))
   \<and> js_bitand (sig_i S - 27) 3 = (sig_i S - 27) mod 4
   \<and> 0 \<le> js_bitand (sig_i S - 27) 3 \<and> js_bitand (sig_i S - 27) 3 \<le> 3
   \<and> (0 \<le> p \<and> p \<le> 3 \<and> sig_i S = p + 4 + 27 \<longrightarrow> js_bitand (sig_i S - 27) 3 = p)"
proof (intro conjI impI)
  assume "length digest = 32"
  then show "recoverHash env S (JBuffer digest)
        = (case ecdsa_recoverPubKey env (BigInteger_fromBuffer digest) (sig_r S) (sig_s S)
                  (js_bitand (sig_i S - 27) 3) of
             Inl err \<Rightarrow> Inl err
           | Inr Q \<Rightarrow> Inr (PublicKey_fromPoint env Q))"
    by (simp add: recoverHash_def digest_arg_def Let_def)
next
  show "js_bitand (sig_i S - 27) 3 = (sig_i S - 27) mod 4" by (rule js_bitand_3)
  show "0 \<le> js_bitand (sig_i S - 27) 3" by (simp add: js_bitand_3)
  show "js_bitand (sig_i S - 27) 3 \<le> 3" by (simp add: js_bitand_3)
next
  assume "0 \<le> p \<and> p \<le> 3 \<and> sig_i S = p + 4 + 27"
  then show "js_bitand (sig_i S - 27) 3 = p" by (simp add: js_bitand_3)
qed

theorem recoverHash_parameter_witness:
  "recoverHash test_adapters test_signature (JBuffer (replicate 32 0)) = Inr 2
   \<and> js_bitand (sig_i test_signature - 27) 3 = 2"
proof -
  have i: "sig_i test_signature = 2 + 4 + 27" by (simp add: test_signature_def)
  from recoverHash_parameter [of "replicate 32 0" test_adapters test_signature 2] i
  have p: "js_bitand (sig_i test_signature - 27) 3 = 2"
    and r: "recoverHash test_adapters test_signature (JBuffer (replicate 32 0))
        = (case ecdsa_recoverPubKey test_adapters (BigInteger_fromBuffer (replicate 32 0))
                  (sig_r test_signature) (sig_s test_signature)
                  (js_bitand (sig_i test_signature - 27) 3) of
             Inl err \<Rightarrow> Inl err
           | Inr Q \<Rightarrow> Inr (PublicKey_fromPoint test_adapters Q))"
    by simp_all
  have "ecdsa_recoverPubKey test_adapters e r' s' 2 = Inr 2" for e r' s'
    by (simp add: test_adapters_def)
  with r p have "recoverHash test_adapters test_signature (JBuffer (replicate 32 0))
        = Inr (PublicKey_fromPoint test_adapters 2)"
    by (simp only: sum.case)
  then show ?thesis using p by (simp add: test_adapters_def)
qed

section \<open>Parsing the text form\<close>

lemma js_slice_0_nat: "js_slice xs 0 (int n) = take n xs"
  by (simp add: js_slice_def slice_index_def Let_def min_def)

lemma js_slice_from_nat: "js_slice_from xs (int n) = drop n xs"
  by (simp add: js_slice_from_def slice_index_def min_def)

lemma js_slice_from_neg4: "js_slice_from xs (- 4) = drop (length xs - 4) xs"
proof -
  have "nat (max 0 (int (length xs) - 4)) = length xs - 4" by simp
  then show ?thesis by (simp add: js_slice_from_def slice_index_def)
qed

lemma js_slice_0_neg4: "js_slice xs 0 (- 4) = take (length xs - 4) xs"
proof -
  have "nat (max 0 (int (length xs) - 4)) = length xs - 4" by simp
  then show ?thesis by (simp add: js_slice_def slice_index_def Let_def)
qed

lemma js_slice_0_4: "js_slice xs 0 4 = take 4 xs"
  using js_slice_0_nat [of xs 4] by simp

lemma fromStringOrThrow_unfold:
  "fromStringOrThrow env text prefix_arg =
     (let p = prefix_or_default env prefix_arg
      in if take (length p) text \<noteq> p
         then Inl (AssertionError (''Expecting key to begin with '' @ p @ '', instead got '' @ p))
         else case base58_decode (drop (length p) text) of
                Inl err \<Rightarrow> Inl err
              | Inr decoded \<Rightarrow>
                  if toString_hex (drop (length decoded - 4) decoded)
                       \<noteq> toString_hex (take 4 (hash_ripemd160 env (take (length decoded - 4) decoded)))
                  then Inl (AssertionError
                         (''Checksum did not match, ''
                          @ toString_hex (drop (length decoded - 4) decoded) @ '' != ''
                          @ toString_hex (take 4 (hash_ripemd160 env (take (length decoded - 4) decoded)))))
                  else fromBuffer (JBuffer (take (length decoded - 4) decoded)))"
  unfolding fromStringOrThrow_def prefix_or_default_def Let_def
    js_slice_0_nat js_slice_from_nat js_slice_from_neg4 js_slice_0_neg4 js_slice_0_4
  by (rule refl)

lemma hex_digit_inject: "a < 16 \<Longrightarrow> b < 16 \<Longrightarrow> hex_digit a = hex_digit b \<Longrightarrow> a = b"
proof -
  assume a: "a < 16" and b: "b < 16" and eq: "hex_digit a = hex_digit b"
  have "distinct ''0123456789abcdef''" by simp
  moreover have "a < length ''0123456789abcdef''" "b < length ''0123456789abcdef''"
    using a b by simp_all
  ultimately show "a = b"
    using eq unfolding hex_digit_def by (simp only: nth_eq_iff_index_eq)
qed

lemma toString_hex_Cons:
  "toString_hex (x # xs) = hex_digit (unat x div 16) # hex_digit (unat x mod 16) # toString_hex xs"
  by (simp add: toString_hex_def)

lemma toString_hex_Nil: "toString_hex [] = []"
  by (simp add: toString_hex_def)

lemma toString_hex_inject: "toString_hex xs = toString_hex ys \<Longrightarrow> xs = ys"
proof (induction xs arbitrary: ys)
  case Nil
  then show ?case by (cases ys) (simp_all add: toString_hex_Nil toString_hex_Cons)
next
  case (Cons x xs)
  then obtain y ys' where ys: "ys = y # ys'"
    by (cases ys) (simp_all add: toString_hex_Nil toString_hex_Cons)
  from Cons.prems ys have d: "hex_digit (unat x div 16) = hex_digit (unat y div 16)"
    and m: "hex_digit (unat x mod 16) = hex_digit (unat y mod 16)"
    and rest: "toString_hex xs = toString_hex ys'"
    by (simp_all add: toString_hex_Cons)
  have "unat x div 16 < 16" "unat y div 16 < 16"
    using unat_byte_less [of x] unat_byte_less [of y] by simp_all
  with d have "unat x div 16 = unat y div 16" by (rule hex_digit_inject [rotated 2])
  moreover have "unat x mod 16 = unat y mod 16"
    using m by (intro hex_digit_inject) simp_all
  ultimately have "unat x = unat y"
    by (metis div_mult_mod_eq)
  then have "x = y" by (rule word_unat_eq_iff [THEN iffD2])
  with Cons.IH [OF rest] ys show ?case by simp
qed

lemma fromBuffer_bad_parameter:
  assumes "length buf = 65" "\<not> (27 \<le> uint (buf ! 0) \<and> uint (buf ! 0) \<le> 34)"
  shows "fromBuffer (JBuffer buf) = Inl (AssertionError ''Invalid signature parameter'')"
proof -
  have "uint (buf ! 0) \<le> 255" using uint_lt2p [of "buf ! 0"] by simp
  then have "(uint (buf ! 0) - 27 = js_bitand (uint (buf ! 0) - 27) 7)
           = (27 \<le> uint (buf ! 0) \<and> uint (buf ! 0) \<le> 34)"
    by (simp add: js_bitand_7_check)
  with assms show ?thesis by (simp add: Let_def)
qed

lemma base58_decode_Nil: "base58_decode [] = Inr []"
  by (simp add: base58_decode_def)

lemma fromStringOrThrow_empty: "\<exists>e. fromStringOrThrow env [] prefix_arg = Inl e"
  by (cases "prefix_or_default env prefix_arg")
     (simp_all add: fromStringOrThrow_unfold base58_decode_Nil Let_def)

lemma fromStringOrThrow_prefix_mismatch:
  assumes "take (length (prefix_or_default env prefix_arg)) text \<noteq> prefix_or_default env prefix_arg"
  shows "fromStringOrThrow env text prefix_arg =
           Inl (AssertionError (''Expecting key to begin with '' @ prefix_or_default env prefix_arg
                  @ '', instead got '' @ prefix_or_default env prefix_arg))"
  using assms by (simp add: fromStringOrThrow_unfold Let_def)

text \<open>
  C7. Whenever \<open>fromStringOrThrow\<close> raises an error, \<open>fromString\<close> returns null, and
  whenever it returns a signature, \<open>fromString\<close> returns the same one. In particular
  \<open>fromString\<close> returns null for a text that does not start with the prefix, for a
  remainder that is not base58, for a checksum that differs from the first four bytes of
  the RIPEMD-160 of the payload, and for a payload that is not 65 bytes with a first byte
  in 27..34.
\<close>

theorem fromString_swallows:
  "(fromStringOrThrow env text prefix_arg = Inl e \<longrightarrow> fromString env text prefix_arg = None)
   \<and> (fromStringOrThrow env text prefix_arg = Inr sg \<longrightarrow> fromString env text prefix_arg = Some sg)
   \<and> (take (length (prefix_or_default env prefix_arg)) text \<noteq> prefix_or_default env prefix_arg
        \<longrightarrow> fromString env text prefix_arg = None)
   \<and> (base58_decode (drop (length (prefix_or_default env prefix_arg)) text) = Inl e'
        \<longrightarrow> fromString env text prefix_arg = None)
   \<and> (base58_decode (drop (length (prefix_or_default env prefix_arg)) text) = Inr decoded
        \<and> drop (length decoded - 4) decoded
            \<noteq> take 4 (hash_ripemd160 env (take (length decoded - 4) decoded))
        \<longrightarrow> fromString env text prefix_arg = None)
   \<and> (base58_decode (drop (length (prefix_or_default env prefix_arg)) text) = Inr decoded
        \<and> (length decoded \<noteq> 69 \<or> \<not> (27 \<le> uint (decoded ! 0) \<and> uint (decoded ! 0) \<le> 34))
        \<longrightarrow> fromString env text prefix_arg = None)"
proof (intro conjI impI)
  assume "fromStringOrThrow env text prefix_arg = Inl e"
  then show "fromString env text prefix_arg = None" by (simp add: fromString_def)
next
  assume "fromStringOrThrow env text prefix_arg = Inr sg"
  then show "fromString env text prefix_arg = Some sg" by (simp add: fromString_def)
next
  assume "take (length (prefix_or_default env prefix_arg)) text \<noteq> prefix_or_default env prefix_arg"
  then show "fromString env text prefix_arg = None"
    by (simp add: fromString_def fromStringOrThrow_prefix_mismatch)
next
  assume "base58_decode (drop (length (prefix_or_default env prefix_arg)) text) = Inl e'"
  then show "fromString env text prefix_arg = None"
    by (simp add: fromString_def fromStringOrThrow_unfold Let_def)
next
  assume a: "base58_decode (drop (length (prefix_or_default env prefix_arg)) text) = Inr decoded
        \<and> drop (length decoded - 4) decoded
            \<noteq> take 4 (hash_ripemd160 env (take (length decoded - 4) decoded))"
  then have "toString_hex (drop (length decoded - 4) decoded)
       \<noteq> toString_hex (take 4 (hash_ripemd160 env (take (length decoded - 4) decoded)))"
    using toString_hex_inject by blast
  with a show "fromString env text prefix_arg = None"
    by (simp add: fromString_def fromStringOrThrow_unfold Let_def)
next
  assume a: "base58_decode (drop (length (prefix_or_default env prefix_arg)) text) = Inr decoded
        \<and> (length decoded \<noteq> 69 \<or> \<not> (27 \<le> uint (decoded ! 0) \<and> uint (decoded ! 0) \<le> 34))"
  have "\<exists>err. fromBuffer (JBuffer (take (length decoded - 4) decoded)) = Inl err"
  proof (cases "length decoded = 69")
    case False
    then have "length (take (length decoded - 4) decoded) \<noteq> 65" by auto
    then show ?thesis by simp
  next
    case True
    then have l: "length (take (length decoded - 4) decoded) = 65" by simp
    from True have "take (length decoded - 4) decoded ! 0 = decoded ! 0" by simp
    with a True have "\<not> (27 \<le> uint (take (length decoded - 4) decoded ! 0)
                      \<and> uint (take (length decoded - 4) decoded ! 0) \<le> 34)"
      by simp
    from fromBuffer_bad_parameter [OF l this] show ?thesis by blast
  qed
  with a show "fromString env text prefix_arg = None"
    by (auto simp: fromString_def fromStringOrThrow_unfold Let_def simp del: fromBuffer.simps)
qed

theorem fromString_swallows_witness:
  "fromString test_adapters ''XYZabc'' (Some ''EOS'') = None
   \<and> fromString test_adapters ''EOS0'' None = None"
proof -
  have "base58_decode ''0'' = Inl (Error ''Non-base58 character'')"
    by (simp add: base58_decode_def base58_alphabet_def)
  then have "fromString test_adapters ''EOS0'' None = None"
    using fromString_swallows [of test_adapters "''EOS0''" None _ _ "Error ''Non-base58 character''"]
    by (simp add: prefix_or_default_def test_adapters_def)
  moreover have "fromString test_adapters ''XYZabc'' (Some ''EOS'') = None"
    using fromString_swallows [of test_adapters "''XYZabc''" "Some ''EOS''"]
    by (simp add: prefix_or_default_def)
  ultimately show ?thesis by simp
qed

text \<open>
  C8. On a text that starts with \<open>XYZ\<close> where \<open>EOS\<close> is expected, \<open>fromStringOrThrow\<close>
  fails, but the message of the error it raises shows the expected prefix twice: the
  template of the message interpolates \<open>prefix\<close> in both places, and the prefix actually
  found is not in it.
\<close>

theorem fromStringOrThrow_prefix_message:
  "fromStringOrThrow env ''XYZabc'' (Some ''EOS'')
     = Inl (AssertionError ''Expecting key to begin with EOS, instead got EOS'')"
  by (simp add: fromStringOrThrow_prefix_mismatch prefix_or_default_def)

section \<open>The polymorphic entry point\<close>

text \<open>
  C9. \<open>Signature.from\<close> returns an object whose \<open>r\<close>, \<open>s\<close> and \<open>i\<close> are truthy as it
  is; sends a string of 130 characters through \<open>fromHex\<close>; sends any other string through
  \<open>fromString\<close> with the configured prefix, raising a TypeError when that returns null;
  sends a buffer through \<open>fromBuffer\<close>; and raises a TypeError for null, undefined and
  every other value, among them an object with a missing or falsy field.
\<close>

theorem from_dispatch:
  "(i \<noteq> 0 \<longrightarrow> from_sig env (JObject (Some r) (Some s) (Some i))
                  = Inr \<lparr>sig_r = r, sig_s = s, sig_i = i\<rparr>)
   \<and> (length t = 130 \<longrightarrow> from_sig env (JString t) = fromHex env t)
   \<and> (length t \<noteq> 130 \<longrightarrow>
        from_sig env (JString t)
          = (case fromString env t None of
               None \<Rightarrow> Inl (TypeError ''signature should be a hex string or buffer'')
             | Some sg \<Rightarrow> Inr sg))
   \<and> from_sig env (JBuffer b) = fromBuffer (JBuffer b)
   \<and> from_sig env JNull = Inl (TypeError ''signature should be a hex string or buffer'')
   \<and> from_sig env JUndefined = Inl (TypeError ''signature should be a hex string or buffer'')
   \<and> from_sig env (JBool x) = Inl (TypeError ''signature should be a hex string or buffer'')
   \<and> from_sig env (JNumber n) = Inl (TypeError ''signature should be a hex string or buffer'')
   \<and> (ro = None \<or> so = None \<or> io = None \<or> io = Some 0 \<longrightarrow>
        from_sig env (JObject ro so io)
          = Inl (TypeError ''signature should be a hex string or buffer''))"
proof (intro conjI impI)
  assume "i \<noteq> 0"
  then show "from_sig env (JObject (Some r) (Some s) (Some i)) = Inr \<lparr>sig_r = r, sig_s = s, sig_i = i\<rparr>"
    by (simp add: from_sig_def)
next
  assume l: "length t = 130"
  then have "t \<noteq> []" by auto
  with l show "from_sig env (JString t) = fromHex env t"
    by (cases "fromHex env t") (simp_all add: from_sig_def)
next
  assume l: "length t \<noteq> 130"
  show "from_sig env (JString t)
          = (case fromString env t None of
               None \<Rightarrow> Inl (TypeError ''signature should be a hex string or buffer'')
             | Some sg \<Rightarrow> Inr sg)"
  proof (cases "t = []")
    case True
    from fromStringOrThrow_empty [of env None] have "fromString env [] None = None"
      by (auto simp: fromString_def)
    with True show ?thesis by (simp add: from_sig_def)
  next
    case False
    with l show ?thesis by (cases "fromString env t None") (simp_all add: from_sig_def)
  qed
next
  show "from_sig env (JBuffer b) = fromBuffer (JBuffer b)"
    by (cases "fromBuffer (JBuffer b)") (simp_all add: from_sig_def del: fromBuffer.simps)
  show "from_sig env JNull = Inl (TypeError ''signature should be a hex string or buffer'')"
    by (simp add: from_sig_def)
  show "from_sig env JUndefined = Inl (TypeError ''signature should be a hex string or buffer'')"
    by (simp add: from_sig_def)
  show "from_sig env (JBool x) = Inl (TypeError ''signature should be a hex string or buffer'')"
    by (simp add: from_sig_def)
  show "from_sig env (JNumber n) = Inl (TypeError ''signature should be a hex string or buffer'')"
    by (simp add: from_sig_def)
next
  assume "ro = None \<or> so = None \<or> io = None \<or> io = Some 0"
  then show "from_sig env (JObject ro so io)
          = Inl (TypeError ''signature should be a hex string or buffer'')"
    by (auto simp: from_sig_def split: option.splits)
qed

theorem from_dispatch_witness:
  "from_sig test_adapters (JObject (Some 5) (Some 9) (Some 31)) = Inr \<lparr>sig_r = 5, sig_s = 9, sig_i = 31\<rparr>
   \<and> from_sig test_adapters (JString (replicate 130 (CHR ''0''))) = fromHex test_adapters (replicate 130 (CHR ''0''))
   \<and> from_sig test_adapters (JString ''XYZabc'') = Inl (TypeError ''signature should be a hex string or buffer'')
   \<and> from_sig test_adapters (JObject (Some 5) (Some 9) (Some 0))
       = Inl (TypeError ''signature should be a hex string or buffer'')"
proof -
  have "fromString test_adapters ''XYZabc'' None = None"
    by (simp add: fromString_def fromStringOrThrow_prefix_mismatch prefix_or_default_def test_adapters_def)
  then show ?thesis
    using from_dispatch [of 31 test_adapters 5 9 "replicate 130 (CHR ''0'')" _ _ _ "Some 5" "Some 9" "Some 0"]
      from_dispatch [of 31 test_adapters 5 9 "''XYZabc''" _ _ _ "Some 5" "Some 9" "Some 0"]
    by simp
qed

section \<open>The text form\<close>

lemma length_copy:
  "targetStart \<le> length target \<Longrightarrow> length (copy src target targetStart) = length target"
  unfolding copy_def Let_def length_append length_take length_drop by arith

lemma toBuffer_length:
  assumes "toBuffer S = Inr buf"
  shows "length buf = 65"
proof -
  from assms have "buf = copy (BigInteger_toBuffer (sig_s S) 32)
                 (copy (BigInteger_toBuffer (sig_r S) 32) ((replicate 65 0)[0 := word_of_int (sig_i S)]) 1) 33"
    by (auto simp: toBuffer_def writeUInt8_def split: if_splits)
  then show ?thesis by (simp add: length_copy)
qed

lemma toBuffer_byte_range:
  "0 \<le> sig_i S \<Longrightarrow> sig_i S \<le> 255 \<Longrightarrow> \<exists>buf. toBuffer S = Inr buf"
  by (simp add: toBuffer_def writeUInt8_def)

lemma toString_fresh:
  assumes "toBuffer S = Inr buf"
  shows "toString env S None pa = (Inr (prefix_or_default env pa @ text_body env buf), Some (text_body env buf))"
  using assms by (simp add: toString_def Let_def prefix_or_default_def text_body_def js_slice_0_4)

lemma toString_cached:
  assumes "toBuffer S = Inr buf"
  shows "toString env S (Some (text_body env buf)) pa
           = (Inr (prefix_or_default env pa @ text_body env buf), Some (text_body env buf))"
proof (cases "text_body env buf")
  case Nil
  with assms show ?thesis
    by (simp add: toString_def Let_def prefix_or_default_def js_slice_0_4 text_body_def [symmetric])
next
  case (Cons c cs)
  then show ?thesis by (simp add: toString_def Let_def prefix_or_default_def)
qed

lemma toString_calls_cached:
  assumes "toBuffer S = Inr buf"
  shows "toString_calls env S (Some (text_body env buf)) ps
           = (map (\<lambda>pa. Inr (prefix_or_default env pa @ text_body env buf)) ps, Some (text_body env buf))"
  by (induction ps) (simp_all add: toString_cached [OF assms])

lemma toString_calls_fresh:
  assumes "toBuffer S = Inr buf"
  shows "toString_calls env S None ps
           = (map (\<lambda>pa. Inr (prefix_or_default env pa @ text_body env buf)) ps,
              if ps = [] then None else Some (text_body env buf))"
  by (cases ps) (simp_all add: toString_fresh [OF assms] toString_calls_cached [OF assms])

lemma fromStringOrThrow_decoded:
  assumes "base58_decode body = Inr decoded"
    and "drop (length decoded - 4) decoded
           = take 4 (hash_ripemd160 env (take (length decoded - 4) decoded))"
  shows "fromStringOrThrow env (prefix_or_default env pa @ body) pa
           = fromBuffer (JBuffer (take (length decoded - 4) decoded))"
  using assms by (simp add: fromStringOrThrow_unfold Let_def del: fromBuffer.simps)

lemma fromStringOrThrow_text:
  assumes "toBuffer S = Inr buf" "fromBuffer (JBuffer buf) = Inr S"
    and "4 \<le> length (hash_ripemd160 env buf)"
  shows "fromStringOrThrow env (prefix_or_default env pa @ text_body env buf) pa = Inr S"
proof -
  let ?decoded = "buf @ take 4 (hash_ripemd160 env buf)"
  have len: "length buf = 65" using assms(1) by (rule toBuffer_length)
  with assms(3) have l: "length ?decoded = 69" by simp
  have dec: "base58_decode (text_body env buf) = Inr ?decoded"
    by (simp add: text_body_def base58_decode_encode)
  have d: "drop (length ?decoded - 4) ?decoded = take 4 (hash_ripemd160 env buf)"
    and t: "take (length ?decoded - 4) ?decoded = buf"
    using len l by simp_all
  have "drop (length ?decoded - 4) ?decoded
           = take 4 (hash_ripemd160 env (take (length ?decoded - 4) ?decoded))"
    by (simp only: d t)
  from fromStringOrThrow_decoded [OF dec this]
  show ?thesis by (simp only: t assms(2))
qed

text \<open>
  C2. For every signature \<open>S\<close> returned by \<open>Signature.signHash\<close> or \<open>Signature.sign\<close> and
  every prefix, given or left to the configuration, \<open>toString\<close> returns a text, and
  \<open>fromStringOrThrow\<close> of that text with the same prefix returns a signature with the
  same \<open>r\<close>, \<open>s\<close> and recovery id. The signing primitive is taken to return values
  below the group order and RIPEMD-160 to return 20 bytes.
\<close>

theorem fromStringOrThrow_toString_signed:
  assumes "sign_in_range env" and "hash_lengths env"
    and "signHash env data key = Some (Inr S) \<or> sign env data key = Some (Inr S)"
  shows "\<exists>text cache. toString env S None prefix_arg = (Inr text, cache)
           \<and> fromStringOrThrow env text prefix_arg = Inr S"
proof -
  from assms(3) obtain d where "signHash env d key = Some (Inr S)"
    using sign_signHash [of env data key S] by blast
  from signHash_produced [OF assms(1) this]
  have w: "sig_r S < 2 ^ 256" "sig_s S < 2 ^ 256" "31 \<le> sig_i S" "sig_i S \<le> 34"
    by blast+
  then obtain buf where buf: "toBuffer S = Inr buf"
    using toBuffer_byte_range [of S] by auto
  with w have rt: "fromBuffer (JBuffer buf) = Inr S"
    by (intro fromBuffer_toBuffer) simp_all
  from assms(2) have "4 \<le> length (hash_ripemd160 env buf)"
    by (simp add: hash_lengths_def)
  from fromStringOrThrow_text [OF buf rt this] toString_fresh [OF buf]
  show ?thesis by blast
qed

theorem fromStringOrThrow_toString_signed_witness:
  "sign_in_range test_adapters \<and> hash_lengths test_adapters
   \<and> sign test_adapters (JString ''hello'') 7 = Some (Inr test_signature)
   \<and> (\<exists>text cache. toString test_adapters test_signature None (Some ''EOS'') = (Inr text, cache)
         \<and> fromStringOrThrow test_adapters text (Some ''EOS'') = Inr test_signature)"
proof -
  note h1 = test_sign_in_range
  note h2 = test_hash_lengths
  note h3 = test_sign
  from fromStringOrThrow_toString_signed [OF h1 h2 disjI2 [OF h3], of "Some ''EOS''"] h1 h2 h3
  show ?thesis by (intro conjI)
qed

text \<open>
  C10, as stated, fails for a signature whose recovery id is outside 0..255: every
  \<open>toString\<close> call on it raises the range error of \<open>toBuffer\<close> and returns no text.
\<close>

theorem toString_counterexample:
  "toString test_adapters \<lparr>sig_r = 1, sig_s = 1, sig_i = 300\<rparr> None (Some ''EOS'')
     = (Inl (RangeError ''\"value\" argument is out of bounds''), None)"
  by (simp add: toString_def toBuffer_def writeUInt8_def)

text \<open>
  C10, amended. For every signature whose recovery id is in 0..255, so that \<open>toBuffer\<close>
  returns, and every sequence of \<open>toString\<close> calls on a new instance, each call returns
  its own prefix followed by one and the same body, the base58 form of the byte form
  followed by the first four bytes of its RIPEMD-160; and a call on the cache left by any
  such sequence returns what a call on an empty cache returns for that prefix.
\<close>

theorem toString_cache_transparent:
  assumes "0 \<le> sig_i S" "sig_i S \<le> 255"
  shows "\<exists>buf. toBuffer S = Inr buf
           \<and> fst (toString_calls env S None ps)
               = map (\<lambda>pa. Inr (prefix_or_default env pa
                                  @ base58_encode (buf @ take 4 (hash_ripemd160 env buf)))) ps
           \<and> fst (toString env S (snd (toString_calls env S None ps)) pa)
               = fst (toString env S None pa)"
proof -
  from assms obtain buf where buf: "toBuffer S = Inr buf"
    using toBuffer_byte_range [of S] by auto
  have "fst (toString_calls env S None ps)
               = map (\<lambda>pa. Inr (prefix_or_default env pa
                                  @ base58_encode (buf @ take 4 (hash_ripemd160 env buf)))) ps"
    by (simp add: toString_calls_fresh [OF buf] text_body_def)
  moreover have "fst (toString env S (snd (toString_calls env S None ps)) pa)
               = fst (toString env S None pa)"
    by (simp add: toString_calls_fresh [OF buf] toString_cached [OF buf] toString_fresh [OF buf])
  ultimately show ?thesis using buf by blast
qed

theorem toString_cache_transparent_witness:
  "0 \<le> sig_i test_signature \<and> sig_i test_signature \<le> 255
   \<and> (\<exists>buf. toBuffer test_signature = Inr buf
        \<and> fst (toString_calls test_adapters test_signature None [Some ''EOS'', None, Some ''PUB''])
            = [Inr (''EOS'' @ base58_encode (buf @ take 4 (hash_ripemd160 test_adapters buf))),
               Inr (''EOS'' @ base58_encode (buf @ take 4 (hash_ripemd160 test_adapters buf))),
               Inr (''PUB'' @ base58_encode (buf @ take 4 (hash_ripemd160 test_adapters buf)))])"
proof -
  have h: "0 \<le> sig_i test_signature" "sig_i test_signature \<le> 255"
    by (simp_all add: test_signature_def)
  from toString_cache_transparent [OF h, of test_adapters "[Some ''EOS'', None, Some ''PUB'']"]
  obtain buf where "toBuffer test_signature = Inr buf"
    "fst (toString_calls test_adapters test_signature None [Some ''EOS'', None, Some ''PUB''])
       = map (\<lambda>pa. Inr (prefix_or_default test_adapters pa
                          @ base58_encode (buf @ take 4 (hash_ripemd160 test_adapters buf))))
           [Some ''EOS'', None, Some ''PUB'']"
    by blast
  moreover have "prefix_or_default test_adapters None = ''EOS''"
    by (simp add: prefix_or_default_def test_adapters_def)
  ultimately have "toBuffer test_signature = Inr buf
        \<and> fst (toString_calls test_adapters test_signature None [Some ''EOS'', None, Some ''PUB''])
            = [Inr (''EOS'' @ base58_encode (buf @ take 4 (hash_ripemd160 test_adapters buf))),
               Inr (''EOS'' @ base58_encode (buf @ take 4 (hash_ripemd160 test_adapters buf))),
               Inr (''PUB'' @ base58_encode (buf @ take 4 (hash_ripemd160 test_adapters buf)))]"
    by (simp add: prefix_or_default_def)
  then have "\<exists>buf. toBuffer test_signature = Inr buf
        \<and> fst (toString_calls test_adapters test_signature None [Some ''EOS'', None, Some ''PUB''])
            = [Inr (''EOS'' @ base58_encode (buf @ take 4 (hash_ripemd160 test_adapters buf))),
               Inr (''EOS'' @ base58_encode (buf @ take 4 (hash_ripemd160 test_adapters buf))),
               Inr (''PUB'' @ base58_encode (buf @ take 4 (hash_ripemd160 test_adapters buf)))]"
    by (rule exI)
  with h show ?thesis by (intro conjI)
qed

end
